theory Spec2Isabelle
  imports Complex_Main
begin

section \<open>Time and errors\<close>

text \<open>
  A point in time (\<open>timezone.now()\<close>, a \<open>DateTimeField\<close>) is a number of microseconds,
  the resolution of Python's \<open>datetime\<close>; a \<open>timedelta\<close> is a difference of two such
  numbers. One call of a modelled operation reads the clock once: the reading is the
  argument \<open>now\<close>.
\<close>

type_synonym time = int

definition minutes :: "int \<Rightarrow> int" where
  "minutes n = n * 60000000"

text \<open>
  The exceptions the modelled code raises or lets through. A \<open>ValidationError\<close> carries
  the keys of its error dictionary (field names, or \<open>__all__\<close>).
\<close>

datatype error = ValueError string | ValidationError "string list" | IntegrityError

section \<open>The OTP model\<close>

text \<open>
  \<open>class OTP(models.Model)\<close>. \<open>otp_user\<close> is the foreign key to the user (the user's
  primary key; \<open>None\<close> for SQL NULL, the field has \<open>null=True\<close>).
\<close>

record OTP =
  otp_id :: nat
  otp_user :: "nat option"
  code :: string
  otp_created_at :: time
  is_verified :: bool
  attempts :: int
  otp_type :: string

definition is_valid :: "time \<Rightarrow> OTP \<Rightarrow> bool" where
  "is_valid now self =
     (now \<le> otp_created_at self + minutes 10 \<and> \<not> is_verified self \<and> attempts self < 3)"

section \<open>The user model and the other tables\<close>

text \<open>
  \<open>class User(AbstractUser)\<close>. The fields that the modelled operations read or write
  are kept; the others (names, gender, vehicle data, role, ride counters, \<open>updated_at\<close>)
  are read by no modelled operation and are left out. \<open>uid\<close> is the primary key.
  \<open>adding\<close> is Django's \<open>_state.adding\<close>: true for an instance that was built in Python
  and not saved yet. Such an instance has no primary key and no \<open>created_at\<close> in Python
  (both \<open>None\<close>); the model keeps 0 there, and no modelled code reads either before
  \<open>save\<close> assigns them. \<open>drivers_license_image\<close> is the name of the stored file, empty
  when there is none. The two ratings are Python floats, modelled as the rational numbers
  they denote.
\<close>

record User =
  uid :: nat
  adding :: bool
  email :: string
  password :: string
  phone_number :: string
  created_at :: time
  is_active :: bool
  is_staff :: bool
  is_superuser :: bool
  email_verified :: bool
  phone_verified :: bool
  registration_pending :: bool
  drivers_license_image :: string
  is_driver_verified :: bool
  rating_as_driver :: rat
  rating_as_passenger :: rat

text \<open>
  The models of \<open>rides/models.py\<close>, with their primary key, their foreign keys (all
  \<open>on_delete=CASCADE\<close>) and, for \<open>Rating\<close>, the score.
\<close>

record RideDetails =
  ride_id :: nat
  driver :: nat

record PassengerRideRequest =
  request_id :: nat
  passenger :: nat
  request_ride :: nat

record Rating =
  rating_id :: nat
  rating_ride :: nat
  from_user :: nat
  to_user :: nat
  score :: int

record ChatMessage =
  message_id :: nat
  message_ride :: nat
  sender :: nat
  receiver :: nat

text \<open>The store: one list of rows per table, in insertion order.\<close>

record db =
  users :: "User list"
  otps :: "OTP list"
  rides :: "RideDetails list"
  requests :: "PassengerRideRequest list"
  ratings :: "Rating list"
  chats :: "ChatMessage list"

definition empty_db :: db where
  "empty_db = \<lparr>users = [], otps = [], rides = [], requests = [], ratings = [], chats = []\<rparr>"

text \<open>
  A new primary key: one more than the largest key of the table. (A database sequence
  may give a larger one; the operations only need a key that no row of the table has.)
\<close>

definition fresh_pk :: "nat list \<Rightarrow> nat" where
  "fresh_pk ks = Suc (fold max ks 0)"

subsection \<open>Deleting users\<close>

text \<open>
  \<open>User.objects.filter(q).delete()\<close>. The rows of the other tables that refer to a deleted
  user go with it (\<open>on_delete=CASCADE\<close>), and so do the rows that refer to a ride deleted
  that way. The first component is \<open>delete()[0]\<close>, the number of rows deleted over all
  tables.
\<close>

definition delete_users :: "(User \<Rightarrow> bool) \<Rightarrow> db \<Rightarrow> nat \<times> db" where
  "delete_users q d =
     (let ids = set (map uid (filter q (users d)));
          gone_ride = (\<lambda>r. driver r \<in> ids);
          rids = set (map ride_id (filter gone_ride (rides d)));
          gone_otp = (\<lambda>t. case otp_user t of None \<Rightarrow> False | Some k \<Rightarrow> k \<in> ids);
          gone_request = (\<lambda>r. passenger r \<in> ids \<or> request_ride r \<in> rids);
          gone_rating = (\<lambda>r. from_user r \<in> ids \<or> to_user r \<in> ids \<or> rating_ride r \<in> rids);
          gone_chat = (\<lambda>m. sender m \<in> ids \<or> receiver m \<in> ids \<or> message_ride m \<in> rids)
      in (length (filter q (users d)) + length (filter gone_otp (otps d))
            + length (filter gone_ride (rides d)) + length (filter gone_request (requests d))
            + length (filter gone_rating (ratings d)) + length (filter gone_chat (chats d)),
          \<lparr>users = filter (\<lambda>u. \<not> q u) (users d),
           otps = filter (\<lambda>t. \<not> gone_otp t) (otps d),
           rides = filter (\<lambda>r. \<not> gone_ride r) (rides d),
           requests = filter (\<lambda>r. \<not> gone_request r) (requests d),
           ratings = filter (\<lambda>r. \<not> gone_rating r) (ratings d),
           chats = filter (\<lambda>m. \<not> gone_chat m) (chats d)\<rparr>))"

subsection \<open>cleanup_expired_registrations\<close>

text \<open>
  An optional string argument is \<open>None\<close> or \<open>Some s\<close>; Python's \<open>if email\<close> is false for
  \<open>None\<close> and for the empty string.
\<close>

definition truthy :: "string option \<Rightarrow> bool" where
  "truthy a = (case a of None \<Rightarrow> False | Some s \<Rightarrow> s \<noteq> [])"

definition base_query :: "time \<Rightarrow> User \<Rightarrow> bool" where
  "base_query now u = (registration_pending u \<and> created_at u < now - minutes 5)"

definition specific_query :: "string option \<Rightarrow> string option \<Rightarrow> User \<Rightarrow> bool" where
  "specific_query em ph u =
     ((truthy em \<and> Some (email u) = em \<and> registration_pending u)
      \<or> (truthy ph \<and> Some (phone_number u) = ph \<and> registration_pending u))"

definition final_query :: "time \<Rightarrow> string option \<Rightarrow> string option \<Rightarrow> User \<Rightarrow> bool" where
  "final_query now em ph u =
     (if truthy em \<or> truthy ph then base_query now u \<or> specific_query em ph u
      else base_query now u)"

definition cleanup_expired_registrations ::
    "time \<Rightarrow> string option \<Rightarrow> string option \<Rightarrow> db \<Rightarrow> nat \<times> db" where
  "cleanup_expired_registrations now em ph d = delete_users (final_query now em ph) d"

section \<open>Strings\<close>

text \<open>
  Python's \<open>str(n)\<close> of an integer, used by the f-strings and by the OTP generator.
  Strings are ASCII text.
\<close>

definition digit_char :: "nat \<Rightarrow> char" where
  "digit_char n = char_of (48 + n)"

fun str_nat :: "nat \<Rightarrow> string" where
  "str_nat n = (if n < 10 then [digit_char n] else str_nat (n div 10) @ [digit_char (n mod 10)])"

declare str_nat.simps [simp del]

definition str_int :: "int \<Rightarrow> string" where
  "str_int i = (if i < 0 then CHR ''-'' # str_nat (nat (- i)) else str_nat (nat i))"

text \<open>
  \<open>BaseUserManager.normalize_email\<close>: the part after the last \<open>@\<close> of the stripped
  address is put in lower case; an address without \<open>@\<close> is returned as it is.
\<close>

definition is_space :: "char \<Rightarrow> bool" where
  "is_space c = (of_char c \<in> {9::nat, 10, 11, 12, 13, 28, 29, 30, 31, 32})"

definition strip :: "string \<Rightarrow> string" where
  "strip s = rev (dropWhile is_space (rev (dropWhile is_space s)))"

definition lower_char :: "char \<Rightarrow> char" where
  "lower_char c = (if 65 \<le> (of_char c :: nat) \<and> (of_char c :: nat) \<le> 90
                   then char_of ((of_char c :: nat) + 32) else c)"

definition lower :: "string \<Rightarrow> string" where
  "lower s = map lower_char s"

definition rsplit_at :: "string \<Rightarrow> (string \<times> string) option" where
  "rsplit_at s =
     (if CHR ''@'' \<in> set s
      then Some (rev (tl (dropWhile (\<lambda>c. c \<noteq> CHR ''@'') (rev s))),
                 rev (takeWhile (\<lambda>c. c \<noteq> CHR ''@'') (rev s)))
      else None)"

definition normalize_email :: "string \<Rightarrow> string" where
  "normalize_email em =
     (case rsplit_at (strip em) of
        None \<Rightarrow> em
      | Some (email_name, domain_part) \<Rightarrow> email_name @ ''@'' @ lower domain_part)"

section \<open>The user manager\<close>

text \<open>
  What the framework contributes and the repository does not define: the validators of
  the single fields (\<open>clean_fields\<close> gives the names of the fields that fail: blank,
  too long, not an e-mail address), the password hasher, and whether \<open>full_clean\<close> also
  checks the declared constraints (it does from Django 4.1 on).
\<close>

record django =
  clean_fields :: "User \<Rightarrow> string list"
  make_password :: "string \<Rightarrow> string"
  validates_constraints :: bool

text \<open>
  \<open>**extra_fields\<close>: the keyword arguments for the modelled fields, each absent
  (\<open>None\<close>) or given with a value of the field's type.
\<close>

record kwargs =
  kw_phone_number :: "string option"
  kw_is_active :: "bool option"
  kw_is_staff :: "bool option"
  kw_is_superuser :: "bool option"
  kw_email_verified :: "bool option"
  kw_phone_verified :: "bool option"
  kw_registration_pending :: "bool option"
  kw_drivers_license_image :: "string option"
  kw_is_driver_verified :: "bool option"
  kw_rating_as_driver :: "rat option"
  kw_rating_as_passenger :: "rat option"

definition no_kwargs :: kwargs where
  "no_kwargs = \<lparr>kw_phone_number = None, kw_is_active = None, kw_is_staff = None,
     kw_is_superuser = None, kw_email_verified = None, kw_phone_verified = None,
     kw_registration_pending = None, kw_drivers_license_image = None,
     kw_is_driver_verified = None, kw_rating_as_driver = None,
     kw_rating_as_passenger = None\<rparr>"

definition setdefault :: "'a option \<Rightarrow> 'a \<Rightarrow> 'a option" where
  "setdefault a v = (case a of None \<Rightarrow> Some v | Some w \<Rightarrow> Some w)"

definition get_or :: "'a option \<Rightarrow> 'a \<Rightarrow> 'a" where
  "get_or a v = (case a of None \<Rightarrow> v | Some w \<Rightarrow> w)"

text \<open>
  \<open>self.model(email=email, **extra_fields)\<close>: a field not given takes the default of its
  declaration.
\<close>

definition model_init :: "string \<Rightarrow> kwargs \<Rightarrow> User" where
  "model_init em kw =
     \<lparr>uid = 0, adding = True, email = em, password = [],
      phone_number = get_or (kw_phone_number kw) [],
      created_at = 0,
      is_active = get_or (kw_is_active kw) False,
      is_staff = get_or (kw_is_staff kw) False,
      is_superuser = get_or (kw_is_superuser kw) False,
      email_verified = get_or (kw_email_verified kw) False,
      phone_verified = get_or (kw_phone_verified kw) False,
      registration_pending = get_or (kw_registration_pending kw) True,
      drivers_license_image = get_or (kw_drivers_license_image kw) [],
      is_driver_verified = get_or (kw_is_driver_verified kw) False,
      rating_as_driver = get_or (kw_rating_as_driver kw) 0,
      rating_as_passenger = get_or (kw_rating_as_passenger kw) 0\<rparr>"

definition set_password :: "django \<Rightarrow> User \<Rightarrow> string \<Rightarrow> User" where
  "set_password fw self raw = self\<lparr>password := make_password fw raw\<rparr>"

subsection \<open>Validation and the constraints of the table\<close>

text \<open>
  The rows a uniqueness check compares an instance with: all rows for a new instance,
  all rows with another primary key for a saved one.
\<close>

definition other_rows :: "User list \<Rightarrow> User \<Rightarrow> User list" where
  "other_rows rows self = (if adding self then rows else filter (\<lambda>v. uid v \<noteq> uid self) rows)"

text \<open>\<open>email = models.EmailField(unique=True)\<close>\<close>

definition email_taken :: "User list \<Rightarrow> User \<Rightarrow> bool" where
  "email_taken others self = list_ex (\<lambda>v. email v = email self) others"

text \<open>\<open>UniqueConstraint(fields=["email"], condition=Q(registration_pending=False))\<close>\<close>

definition unique_verified_email_violated :: "User list \<Rightarrow> User \<Rightarrow> bool" where
  "unique_verified_email_violated others self =
     (\<not> registration_pending self
      \<and> list_ex (\<lambda>v. \<not> registration_pending v \<and> email v = email self) others)"

text \<open>\<open>UniqueConstraint(fields=["phone_number"], condition=Q(registration_pending=False))\<close>\<close>

definition unique_verified_phone_violated :: "User list \<Rightarrow> User \<Rightarrow> bool" where
  "unique_verified_phone_violated others self =
     (\<not> registration_pending self
      \<and> list_ex (\<lambda>v. \<not> registration_pending v \<and> phone_number v = phone_number self) others)"

text \<open>
  \<open>Model.full_clean\<close>, giving the keys of the collected errors (none: the instance is
  valid). The field validators run first; the uniqueness of the e-mail address is
  checked when the field itself passed; the conditional constraints are checked, where
  the framework does so, when their field and the field of their condition passed.
  (\<open>AbstractUser.clean\<close> normalises the address once more, which changes nothing in an
  address that \<open>create_user\<close> has normalised: see \<open>normalize_email_idem\<close>.)
\<close>

definition full_clean :: "django \<Rightarrow> User list \<Rightarrow> User \<Rightarrow> string list" where
  "full_clean fw rows self =
     (let errors1 = clean_fields fw self;
          others = other_rows rows self;
          errors2 = errors1 @
            (if ''email'' \<notin> set errors1 \<and> email_taken others self then [''email''] else []);
          errors3 = errors2 @
            (if validates_constraints fw \<and> ''registration_pending'' \<notin> set errors2
                \<and> ((''email'' \<notin> set errors2 \<and> unique_verified_email_violated others self)
                    \<or> (''phone_number'' \<notin> set errors2
                        \<and> unique_verified_phone_violated others self))
             then [''__all__''] else [])
      in errors3)"

text \<open>
  \<open>super().save()\<close>: the row of a saved instance is updated in place; a new instance
  (or one whose row is gone) is inserted, \<open>created_at\<close> being set then
  (\<open>auto_now_add\<close>). The store refuses the write with \<open>IntegrityError\<close> when the row
  would break one of the three declared uniqueness constraints.
\<close>

definition violates_constraints :: "User list \<Rightarrow> User \<Rightarrow> bool" where
  "violates_constraints others row =
     (email_taken others row \<or> unique_verified_email_violated others row
      \<or> unique_verified_phone_violated others row)"

definition Model_save :: "time \<Rightarrow> User \<Rightarrow> db \<Rightarrow> (error + User) \<times> db" where
  "Model_save now self d =
     (if \<not> adding self \<and> uid self \<in> set (map uid (users d)) then
        (if violates_constraints (filter (\<lambda>v. uid v \<noteq> uid self) (users d)) self
         then (Inl IntegrityError, d)
         else (Inr self,
               d\<lparr>users := map (\<lambda>v. if uid v = uid self then self else v) (users d)\<rparr>))
      else
        (let row = self\<lparr>uid := (if adding self then fresh_pk (map uid (users d)) else uid self),
                        adding := False, created_at := now\<rparr>
         in if violates_constraints (users d) row
            then (Inl IntegrityError, d)
            else (Inr row, d\<lparr>users := users d @ [row]\<rparr>)))"

text \<open>\<open>User.save\<close>\<close>

definition stale_collision :: "time \<Rightarrow> User \<Rightarrow> User \<Rightarrow> bool" where
  "stale_collision now self v =
     ((email v = email self \<or> phone_number v = phone_number self)
      \<and> registration_pending v \<and> created_at v < now - minutes 5)"

definition save :: "time \<Rightarrow> User \<Rightarrow> db \<Rightarrow> (error + User) \<times> db" where
  "save now self d =
     (let self1 = (if drivers_license_image self \<noteq> []
                   then self\<lparr>is_driver_verified := True\<rparr>
                   else self\<lparr>is_driver_verified := False\<rparr>);
          d1 = (if adding self1 \<and> registration_pending self1
                then snd (delete_users (stale_collision now self1) d) else d)
      in Model_save now self1 d1)"

subsection \<open>create_user and create_superuser\<close>

text \<open>
  \<open>QuerySet.first()\<close> under \<open>ordering = ["-created_at"]\<close>: the row created last, the
  earliest inserted among rows of the same instant.
\<close>

fun first_created_desc :: "User list \<Rightarrow> User option" where
  "first_created_desc [] = None"
| "first_created_desc (u # us) =
     (case first_created_desc us of
        None \<Rightarrow> Some u
      | Some v \<Rightarrow> if created_at u < created_at v then Some v else Some u)"

text \<open>
  \<open>int(x)\<close> of the quotient of a duration by a number of microseconds: the quotient
  rounded towards zero. (The source computes it on the float \<open>total_seconds()\<close>.)
\<close>

definition int_quot :: "int \<Rightarrow> int \<Rightarrow> int" where
  "int_quot a b = (if 0 \<le> a then a div b else - ((- a) div b))"

definition pending_message :: "string \<Rightarrow> int \<Rightarrow> string" where
  "pending_message which time_remaining =
     (let mins = int_quot time_remaining 60000000;
          secs = (time_remaining mod 60000000) div 1000000
      in which @ '' verification pending. Please verify or wait ''
           @ str_int mins @ ''m '' @ str_int secs @ ''s.'')"

definition create_user ::
    "django \<Rightarrow> time \<Rightarrow> string option \<Rightarrow> string option \<Rightarrow> kwargs \<Rightarrow> db
       \<Rightarrow> (error + User) \<times> db" where
  "create_user fw now em pw extra_fields d =
     (if \<not> truthy em then (Inl (ValueError ''Email is required''), d)
      else
        let em1 = normalize_email (the em);
            d1 = snd (cleanup_expired_registrations now (Some em1) None d);
            pending_user = first_created_desc
              (filter (\<lambda>v. email v = em1 \<and> registration_pending v
                            \<and> created_at v > now - minutes 5) (users d1))
        in case pending_user of
             Some pu \<Rightarrow>
               (let time_remaining = created_at pu + minutes 5 - now
                in if \<not> email_verified pu
                   then (Inl (ValueError (pending_message ''Email'' time_remaining)), d1)
                   else (Inl (ValueError (pending_message ''Phone'' time_remaining)), d1))
           | None \<Rightarrow>
               (let extra1 = extra_fields
                      \<lparr>kw_registration_pending :=
                          setdefault (kw_registration_pending extra_fields) True,
                       kw_is_active := setdefault (kw_is_active extra_fields) False\<rparr>;
                    user = model_init em1 extra1;
                    user1 = (if truthy pw then set_password fw user (the pw) else user);
                    errors = full_clean fw (users d1) user1
                in if errors \<noteq> [] then (Inl (ValidationError errors), d1)
                   else (case save now user1 d1 of
                           (Inl IntegrityError, d2) \<Rightarrow>
                             (Inl (ValueError ''An account with this email already exists.''), d2)
                         | (Inl e, d2) \<Rightarrow> (Inl e, d2)
                         | (Inr saved, d2) \<Rightarrow> (Inr saved, d2))))"

definition create_superuser ::
    "django \<Rightarrow> time \<Rightarrow> string option \<Rightarrow> string option \<Rightarrow> kwargs \<Rightarrow> db
       \<Rightarrow> (error + User) \<times> db" where
  "create_superuser fw now em pw extra_fields d =
     (let extra1 = extra_fields
            \<lparr>kw_is_staff := setdefault (kw_is_staff extra_fields) True,
             kw_is_superuser := setdefault (kw_is_superuser extra_fields) True,
             kw_is_active := setdefault (kw_is_active extra_fields) True\<rparr>
      in if kw_is_staff extra1 \<noteq> Some True
         then (Inl (ValueError ''Superuser must have is_staff=True.''), d)
         else if kw_is_superuser extra1 \<noteq> Some True
         then (Inl (ValueError ''Superuser must have is_superuser=True.''), d)
         else create_user fw now em pw extra1 d)"

section \<open>Issuing one-time codes\<close>

text \<open>
  \<open>random.randint(a, b)\<close> gives an integer between \<open>a\<close> and \<open>b\<close>, both included; the
  random source is a sequence \<open>rng\<close> of natural numbers, the \<open>i\<close>-th call reducing the
  \<open>i\<close>-th number to that range.
\<close>

definition randint :: "int \<Rightarrow> int \<Rightarrow> nat \<Rightarrow> int" where
  "randint a b raw = a + int (raw mod nat (b - a + 1))"

text \<open>
  \<open>cls.objects.filter(user=user, is_verified=False, type=otp_type)\<close>: the unverified
  codes of that user and purpose. \<open>user\<close> is the user's primary key, or \<open>None\<close>.
\<close>

definition supersedes :: "nat option \<Rightarrow> string \<Rightarrow> OTP \<Rightarrow> bool" where
  "supersedes user ty t = (otp_user t = user \<and> is_verified t = False \<and> otp_type t = ty)"

text \<open>
  \<open>cls.objects.create(user=user, code=otp_code, type=otp_type)\<close>: the other fields take
  their defaults, \<open>created_at\<close> is set by \<open>auto_now_add\<close>. The store refuses a row whose
  user does not exist.
\<close>

definition OTP_create ::
    "time \<Rightarrow> nat option \<Rightarrow> string \<Rightarrow> string \<Rightarrow> db \<Rightarrow> (error + OTP) \<times> db" where
  "OTP_create now user c ty d =
     (let row = \<lparr>otp_id = fresh_pk (map otp_id (otps d)), otp_user = user, code = c,
                 otp_created_at = now, is_verified = False, attempts = 0, otp_type = ty\<rparr>
      in case user of
           None \<Rightarrow> (Inr row, d\<lparr>otps := otps d @ [row]\<rparr>)
         | Some k \<Rightarrow>
             if k \<in> set (map uid (users d)) then (Inr row, d\<lparr>otps := otps d @ [row]\<rparr>)
             else (Inl IntegrityError, d))"

definition create_otp_for_user ::
    "(nat \<Rightarrow> nat) \<Rightarrow> time \<Rightarrow> nat option \<Rightarrow> string \<Rightarrow> db \<Rightarrow> (error + OTP) \<times> db" where
  "create_otp_for_user rng now user ty d =
     (let d1 = d\<lparr>otps := map (\<lambda>t. if supersedes user ty t then t\<lparr>is_verified := True\<rparr> else t)
                            (otps d)\<rparr>;
          otp_code = concat (map (\<lambda>i. str_int (randint 0 9 (rng i))) [0..<6])
      in OTP_create now user otp_code ty d1)"

section \<open>Floating-point numbers\<close>

text \<open>
  A Python float is an IEEE 754 binary64 number. A finite float is modelled as the
  rational number it denotes (the two zeros are one number); infinities and NaN are not
  represented, so a result beyond the largest float is outside the model. \<open>fl\<close> rounds
  a rational to the nearest float, ties to the even significand: 53 bits of
  significand, and the fixed exponent \<open>-1074\<close> for subnormal numbers. A float literal
  \<open>0.7\<close> is \<open>fl (7 / 10)\<close>, an arithmetic operation rounds its exact result, and an
  integer operand is converted by \<open>fl\<close> first.
\<close>

text \<open>\<open>int.bit_length\<close>: the number of binary digits of a positive integer.\<close>

function bit_length :: "int \<Rightarrow> nat" where
  "bit_length n = (if n \<le> 0 then 0 else Suc (bit_length (n div 2)))"
  by pat_completeness auto
termination
  by (relation "measure nat") auto

declare bit_length.simps [simp del]

definition pow2 :: "int \<Rightarrow> rat" where
  "pow2 k = (if 0 \<le> k then 2 ^ nat k else 1 / 2 ^ nat (- k))"

definition round_half_even :: "rat \<Rightarrow> int" where
  "round_half_even x =
     (let f = \<lfloor>x\<rfloor>; r = x - of_int f
      in if r < 1 / 2 then f else if 1 / 2 < r then f + 1 else if even f then f else f + 1)"

text \<open>The integer \<open>k\<close> with \<open>2 ^ k \<le> x < 2 ^ (k + 1)\<close>, for a positive \<open>x\<close>.\<close>

definition floor_log2 :: "rat \<Rightarrow> int" where
  "floor_log2 x =
     (let (p, q) = quotient_of x;
          k = int (bit_length p) - int (bit_length q)
      in if pow2 k \<le> x then k else k - 1)"

definition fl :: "rat \<Rightarrow> rat" where
  "fl x =
     (if x = 0 then 0
      else let e = max (floor_log2 \<bar>x\<bar> - 52) (- 1074)
           in sgn x * of_int (round_half_even (\<bar>x\<bar> / pow2 e)) * pow2 e)"

definition fmul :: "rat \<Rightarrow> rat \<Rightarrow> rat" where
  "fmul a b = fl (a * b)"

definition fadd :: "rat \<Rightarrow> rat \<Rightarrow> rat" where
  "fadd a b = fl (a + b)"

text \<open>
  \<open>round(x, 2)\<close> of a float: the exact value of \<open>x\<close> rounded to the nearest multiple
  of 0.01, ties to the even one, and then the float nearest to that decimal.
\<close>

definition round2 :: "rat \<Rightarrow> rat" where
  "round2 x = fl (of_int (round_half_even (x * 100)) / 100)"

section \<open>Ratings\<close>

text \<open>
  \<open>User.update_rating\<close>. \<open>new_rating\<close> is an integer or a float, given as the number
  it denotes.
\<close>

definition update_rating :: "time \<Rightarrow> User \<Rightarrow> rat \<Rightarrow> bool \<Rightarrow> db \<Rightarrow> (error + User) \<times> db" where
  "update_rating now self new_rating as_driver d =
     (let WEIGHT_NEW = fl (3 / 10);
          WEIGHT_OLD = fl (7 / 10);
          self1 =
            (if as_driver
             then self\<lparr>rating_as_driver :=
                    round2 (fadd (fmul WEIGHT_OLD (rating_as_driver self))
                                 (fmul WEIGHT_NEW (fl new_rating)))\<rparr>
             else self\<lparr>rating_as_passenger :=
                    round2 (fadd (fmul WEIGHT_OLD (rating_as_passenger self))
                                 (fmul WEIGHT_NEW (fl new_rating)))\<rparr>)
      in save now self1 d)"

section \<open>Rides and ratings\<close>

text \<open>
  The models of \<open>rides/models.py\<close> define no operation of their own (\<open>RideDetails.save\<close>
  only calls \<open>super().save()\<close>): what is modelled is what the store does with their
  rows, from the declarations. A write is refused with \<open>IntegrityError\<close> when a foreign
  key points to no row or when \<open>unique_together\<close> would be broken; the validators of a
  field (the bounds of \<open>score\<close>, of \<open>available_seats\<close>) are not part of a write, they
  run in \<open>full_clean\<close>. The flag \<open>adding_row\<close> tells a new instance (inserted under a new
  primary key) from a saved one (its row is updated, or inserted again when it is gone).
\<close>

definition RideDetails_save :: "bool \<Rightarrow> RideDetails \<Rightarrow> db \<Rightarrow> (error + RideDetails) \<times> db" where
  "RideDetails_save adding_row self d =
     (if driver self \<notin> set (map uid (users d)) then (Inl IntegrityError, d)
      else if \<not> adding_row \<and> ride_id self \<in> set (map ride_id (rides d))
      then (Inr self, d\<lparr>rides := map (\<lambda>r. if ride_id r = ride_id self then self else r) (rides d)\<rparr>)
      else (let row = self\<lparr>ride_id := (if adding_row then fresh_pk (map ride_id (rides d))
                                         else ride_id self)\<rparr>
            in (Inr row, d\<lparr>rides := rides d @ [row]\<rparr>)))"

text \<open>
  \<open>RideDetails.objects.filter(q).delete()\<close>: the requests, ratings and messages of a
  deleted ride go with it.
\<close>

definition delete_rides :: "(RideDetails \<Rightarrow> bool) \<Rightarrow> db \<Rightarrow> nat \<times> db" where
  "delete_rides q d =
     (let rids = set (map ride_id (filter q (rides d)));
          gone_request = (\<lambda>r. request_ride r \<in> rids);
          gone_rating = (\<lambda>r. rating_ride r \<in> rids);
          gone_chat = (\<lambda>m. message_ride m \<in> rids)
      in (length (filter q (rides d)) + length (filter gone_request (requests d))
            + length (filter gone_rating (ratings d)) + length (filter gone_chat (chats d)),
          d\<lparr>rides := filter (\<lambda>r. \<not> q r) (rides d),
            requests := filter (\<lambda>r. \<not> gone_request r) (requests d),
            ratings := filter (\<lambda>r. \<not> gone_rating r) (ratings d),
            chats := filter (\<lambda>m. \<not> gone_chat m) (chats d)\<rparr>))"

text \<open>\<open>unique_together = ["ride", "from_user", "to_user"]\<close>\<close>

definition rating_key :: "Rating \<Rightarrow> nat \<times> nat \<times> nat" where
  "rating_key r = (rating_ride r, from_user r, to_user r)"

definition rating_refs_exist :: "db \<Rightarrow> Rating \<Rightarrow> bool" where
  "rating_refs_exist d r =
     (rating_ride r \<in> set (map ride_id (rides d))
      \<and> from_user r \<in> set (map uid (users d)) \<and> to_user r \<in> set (map uid (users d)))"

text \<open>\<open>Rating.save\<close>, which is \<open>Model.save\<close>.\<close>

definition Rating_save :: "bool \<Rightarrow> Rating \<Rightarrow> db \<Rightarrow> (error + Rating) \<times> db" where
  "Rating_save adding_row self d =
     (if \<not> adding_row \<and> rating_id self \<in> set (map rating_id (ratings d)) then
        (if \<not> rating_refs_exist d self
            \<or> rating_key self \<in> set (map rating_key
                 (filter (\<lambda>r. rating_id r \<noteq> rating_id self) (ratings d)))
         then (Inl IntegrityError, d)
         else (Inr self,
               d\<lparr>ratings := map (\<lambda>r. if rating_id r = rating_id self then self else r)
                                 (ratings d)\<rparr>))
      else
        (let row = self\<lparr>rating_id := (if adding_row then fresh_pk (map rating_id (ratings d))
                                         else rating_id self)\<rparr>
         in if \<not> rating_refs_exist d row \<or> rating_key row \<in> set (map rating_key (ratings d))
            then (Inl IntegrityError, d)
            else (Inr row, d\<lparr>ratings := ratings d @ [row]\<rparr>)))"

text \<open>\<open>Rating.objects.filter(q).delete()\<close>\<close>

definition delete_ratings :: "(Rating \<Rightarrow> bool) \<Rightarrow> db \<Rightarrow> nat \<times> db" where
  "delete_ratings q d =
     (length (filter q (ratings d)), d\<lparr>ratings := filter (\<lambda>r. \<not> q r) (ratings d)\<rparr>)"

text \<open>
  \<open>Rating.full_clean\<close>, giving the keys of the collected errors: the foreign keys must
  point to rows, the score must pass \<open>MinValueValidator(1)\<close> and \<open>MaxValueValidator(5)\<close>,
  and when the three fields of \<open>unique_together\<close> passed, no other rating may have the
  same three values.
\<close>

definition Rating_full_clean :: "bool \<Rightarrow> db \<Rightarrow> Rating \<Rightarrow> string list" where
  "Rating_full_clean adding_row d self =
     (let errors1 =
            (if rating_ride self \<notin> set (map ride_id (rides d)) then [''ride''] else [])
            @ (if from_user self \<notin> set (map uid (users d)) then [''from_user''] else [])
            @ (if to_user self \<notin> set (map uid (users d)) then [''to_user''] else [])
            @ (if score self < 1 \<or> 5 < score self then [''score''] else []);
          others = (if adding_row then ratings d
                    else filter (\<lambda>r. rating_id r \<noteq> rating_id self) (ratings d))
      in errors1 @
         (if ''ride'' \<notin> set errors1 \<and> ''from_user'' \<notin> set errors1 \<and> ''to_user'' \<notin> set errors1
             \<and> rating_key self \<in> set (map rating_key others)
          then [''__all__''] else []))"

section \<open>Reachable stores\<close>

text \<open>
  The stores that the application can be in: the empty store, and every store obtained
  from a reachable one by saving a user (\<open>User.save\<close>, for a new or a saved instance
  with any field values, whether the write succeeds or is refused), by deleting users,
  by saving or deleting rides and ratings, or by any change to the tables of one-time
  codes, ride requests and chat messages. \<open>create_user\<close>, \<open>create_superuser\<close>,
  \<open>cleanup_expired_registrations\<close>, \<open>update_rating\<close> and \<open>create_otp_for_user\<close> are
  compositions of these steps (lemmas \<open>reachable_create_user\<close> and the following).
\<close>

inductive reachable :: "db \<Rightarrow> bool" where
  start: "reachable empty_db"
| user_save: "reachable d \<Longrightarrow> reachable (snd (save now self d))"
| user_delete: "reachable d \<Longrightarrow> reachable (snd (delete_users q d))"
| ride_save: "reachable d \<Longrightarrow> reachable (snd (RideDetails_save adding_row ride d))"
| ride_delete: "reachable d \<Longrightarrow> reachable (snd (delete_rides qr d))"
| rating_save: "reachable d \<Longrightarrow> reachable (snd (Rating_save adding_row rating d))"
| rating_delete: "reachable d \<Longrightarrow> reachable (snd (delete_ratings qt d))"
| other_tables: "reachable d \<Longrightarrow> reachable (d\<lparr>otps := os, requests := qs, chats := cs\<rparr>)"

section \<open>Auxiliary definitions for the statements\<close>

text \<open>The number of rows of the store, over all tables.\<close>

definition row_count :: "db \<Rightarrow> nat" where
  "row_count d = length (users d) + length (otps d) + length (rides d)
       + length (requests d) + length (ratings d) + length (chats d)"

text \<open>
  The instance that \<open>create_user\<close> builds and validates, once the pending check has found
  nothing: the defaults applied to the keyword arguments, the password set when given.
\<close>

definition new_user :: "django \<Rightarrow> string \<Rightarrow> string option \<Rightarrow> kwargs \<Rightarrow> User" where
  "new_user fw em1 pw extra_fields =
     (let user = model_init em1 (extra_fields
                      \<lparr>kw_registration_pending :=
                          setdefault (kw_registration_pending extra_fields) True,
                       kw_is_active := setdefault (kw_is_active extra_fields) False\<rparr>)
      in if truthy pw then set_password fw user (the pw) else user)"

text \<open>A decimal digit.\<close>

definition is_digit :: "char \<Rightarrow> bool" where
  "is_digit c = (c \<in> set ''0123456789'')"

text \<open>The rating of one role: as driver, or as passenger.\<close>

definition role_rating :: "bool \<Rightarrow> User \<Rightarrow> rat" where
  "role_rating as_driver u = (if as_driver then rating_as_driver u else rating_as_passenger u)"

text \<open>
  The user table as the constraints leave it: primary keys and e-mail addresses are
  distinct, and so are the phone numbers of the confirmed records.
\<close>

definition users_ok :: "User list \<Rightarrow> bool" where
  "users_ok us = (distinct (map uid us) \<and> distinct (map email us)
     \<and> distinct (map phone_number (filter (\<lambda>u. \<not> registration_pending u) us)))"

text \<open>
  The rating table as the constraints leave it: primary keys and (ride, from_user,
  to_user) triples are distinct, and every rating belongs to a ride of the store.
\<close>

definition ratings_ok :: "db \<Rightarrow> bool" where
  "ratings_ok d = (distinct (map rating_id (ratings d)) \<and> distinct (map rating_key (ratings d))
     \<and> (\<forall>r\<in>set (ratings d). rating_ride r \<in> set (map ride_id (rides d))))"

subsection \<open>Sample data\<close>

text \<open>
  A framework instance for the concrete runs: a field fails validation when it is
  blank (e-mail address, password, phone number) or too long (phone number).
\<close>

definition django0 :: django where
  "django0 = \<lparr>clean_fields = (\<lambda>u. (if email u = [] then [''email''] else [])
        @ (if password u = [] then [''password''] else [])
        @ (if phone_number u = [] \<or> 15 < length (phone_number u)
           then [''phone_number''] else [])),
     make_password = (\<lambda>raw. ''hashed:'' @ raw), validates_constraints = True\<rparr>"

text \<open>A pending registration for \<open>a@x.com\<close>, created at time 0.\<close>

definition pending0 :: User where
  "pending0 = \<lparr>uid = 3, adding = False, email = ''a@x.com'', password = ''hashed:pw'',
     phone_number = ''111'', created_at = 0, is_active = False, is_staff = False,
     is_superuser = False, email_verified = False, phone_verified = False,
     registration_pending = True, drivers_license_image = [], is_driver_verified = False,
     rating_as_driver = 0, rating_as_passenger = 0\<rparr>"

text \<open>A confirmed account for \<open>b@x.com\<close> with phone number 111.\<close>

definition holder0 :: User where
  "holder0 = \<lparr>uid = 1, adding = False, email = ''b@x.com'', password = ''hashed:pw'',
     phone_number = ''111'', created_at = 0, is_active = True, is_staff = False,
     is_superuser = False, email_verified = True, phone_verified = True,
     registration_pending = False, drivers_license_image = [], is_driver_verified = False,
     rating_as_driver = 0, rating_as_passenger = 0\<rparr>"

text \<open>
  The row that a registration with the given address and phone number, the password
  \<open>secret\<close> and no other argument leaves in the store.
\<close>

definition registered :: "nat \<Rightarrow> string \<Rightarrow> string \<Rightarrow> time \<Rightarrow> User" where
  "registered k em ph t = \<lparr>uid = k, adding = False, email = em, password = ''hashed:secret'',
     phone_number = ph, created_at = t, is_active = False, is_staff = False,
     is_superuser = False, email_verified = False, phone_verified = False,
     registration_pending = True, drivers_license_image = [], is_driver_verified = False,
     rating_as_driver = 0, rating_as_passenger = 0\<rparr>"

text \<open>
  A store with the confirmed account and two unverified codes of it, one for the e-mail
  address and one for the phone; and the code that the next issue for the e-mail address
  creates from the random numbers 3, 10, 17, ...
\<close>

definition otp_db0 :: db where
  "otp_db0 = empty_db\<lparr>users := [holder0],
     otps := [\<lparr>otp_id = 1, otp_user = Some 1, code = ''000000'', otp_created_at = 5,
               is_verified = False, attempts = 2, otp_type = ''EMAIL''\<rparr>,
              \<lparr>otp_id = 2, otp_user = Some 1, code = ''000001'', otp_created_at = 5,
               is_verified = False, attempts = 0, otp_type = ''PHONE''\<rparr>]\<rparr>"

definition otp_new0 :: OTP where
  "otp_new0 = \<lparr>otp_id = 3, otp_user = Some 1, code = ''307418'', otp_created_at = 100,
               is_verified = False, attempts = 0, otp_type = ''EMAIL''\<rparr>"

text \<open>The confirmed account after one rating as driver, and after a second one.\<close>

definition rated0 :: User where
  "rated0 = holder0\<lparr>rating_as_driver := fl (12 / 10)\<rparr>"

definition rated1 :: User where
  "rated1 = holder0\<lparr>rating_as_driver := fl (234 / 100)\<rparr>"

text \<open>Two pending registrations, one minute apart, with the same phone number.\<close>

definition twin_db :: db where
  "twin_db = empty_db\<lparr>users := [registered 1 ''a@x.com'' ''111'' 0,
                                  registered 2 ''d@x.com'' ''111'' (minutes 1)]\<rparr>"

text \<open>
  A second confirmed account, a store with the two accounts and a ride of the first,
  and two ratings of that ride, one with a score of 7 and one with a score of 5.
\<close>

definition rider0 :: User where
  "rider0 = holder0\<lparr>uid := 2, email := ''r@x.com'', phone_number := ''333''\<rparr>"

definition ride_db :: db where
  "ride_db = empty_db\<lparr>users := [holder0, rider0], rides := [\<lparr>ride_id = 1, driver = 1\<rparr>]\<rparr>"

definition rating7 :: Rating where
  "rating7 = \<lparr>rating_id = 1, rating_ride = 1, from_user = 2, to_user = 1, score = 7\<rparr>"

definition rating5 :: Rating where
  "rating5 = \<lparr>rating_id = 1, rating_ride = 1, from_user = 2, to_user = 1, score = 5\<rparr>"

section \<open>Deleting and cleaning up\<close>

lemma users_delete_users: "users (snd (delete_users q d)) = filter (\<lambda>u. \<not> q u) (users d)"
  by (simp add: delete_users_def Let_def)

lemma delete_users_count:
  "fst (delete_users q d) + row_count (snd (delete_users q d)) = row_count d"
proof -
  define ids where "ids = set (map uid (filter q (users d)))"
  define gone_ride where "gone_ride = (\<lambda>r::RideDetails. driver r \<in> ids)"
  define rids where "rids = set (map ride_id (filter gone_ride (rides d)))"
  define gone_otp where
    "gone_otp = (\<lambda>t::OTP. case otp_user t of None \<Rightarrow> False | Some k \<Rightarrow> k \<in> ids)"
  define gone_request where
    "gone_request = (\<lambda>r::PassengerRideRequest. passenger r \<in> ids \<or> request_ride r \<in> rids)"
  define gone_rating where
    "gone_rating = (\<lambda>r::Rating. from_user r \<in> ids \<or> to_user r \<in> ids \<or> rating_ride r \<in> rids)"
  define gone_chat where
    "gone_chat = (\<lambda>m::ChatMessage. sender m \<in> ids \<or> receiver m \<in> ids \<or> message_ride m \<in> rids)"
  have r: "delete_users q d =
      (length (filter q (users d)) + length (filter gone_otp (otps d))
            + length (filter gone_ride (rides d)) + length (filter gone_request (requests d))
            + length (filter gone_rating (ratings d)) + length (filter gone_chat (chats d)),
          \<lparr>users = filter (\<lambda>u. \<not> q u) (users d),
           otps = filter (\<lambda>t. \<not> gone_otp t) (otps d),
           rides = filter (\<lambda>r. \<not> gone_ride r) (rides d),
           requests = filter (\<lambda>r. \<not> gone_request r) (requests d),
           ratings = filter (\<lambda>r. \<not> gone_rating r) (ratings d),
           chats = filter (\<lambda>m. \<not> gone_chat m) (chats d)\<rparr>)"
    unfolding delete_users_def Let_def ids_def gone_ride_def rids_def gone_otp_def
      gone_request_def gone_rating_def gone_chat_def by (rule refl)
  show ?thesis
    unfolding r row_count_def
    using sum_length_filter_compl[of q "users d"] sum_length_filter_compl[of gone_otp "otps d"]
      sum_length_filter_compl[of gone_ride "rides d"]
      sum_length_filter_compl[of gone_request "requests d"]
      sum_length_filter_compl[of gone_rating "ratings d"]
      sum_length_filter_compl[of gone_chat "chats d"]
    by simp
qed

lemma truthy_Some [simp]: "truthy (Some s) = (s \<noteq> [])"
  by (simp add: truthy_def)

lemma truthy_None [simp]: "\<not> truthy None"
  by (simp add: truthy_def)

lemma users_cleanup:
  "users (snd (cleanup_expired_registrations now em ph d)) =
     filter (\<lambda>u. \<not> final_query now em ph u) (users d)"
  by (simp add: cleanup_expired_registrations_def users_delete_users)

lemma cleanup_keeps_confirmed:
  "v \<in> set (users d) \<Longrightarrow> \<not> registration_pending v \<Longrightarrow>
     v \<in> set (users (snd (cleanup_expired_registrations now em ph d)))"
  by (simp add: users_cleanup final_query_def base_query_def specific_query_def)

lemma users_cleanup_subset:
  "set (users (snd (cleanup_expired_registrations now em ph d))) \<subseteq> set (users d)"
  by (auto simp add: users_cleanup)

lemma no_pending_after_cleanup:
  assumes "e \<noteq> []"
  shows "filter (\<lambda>v. email v = e \<and> registration_pending v \<and> created_at v > now - minutes 5)
           (users (snd (cleanup_expired_registrations now (Some e) None d))) = []"
  using assms
  by (auto simp add: users_cleanup final_query_def specific_query_def filter_empty_conv)

text \<open>
  What the clean-up deletes. \<open>cleanup_expired_registrations\<close> deletes every pending
  record older than the 5-minute grace window; when an e-mail address (or a phone number)
  is given it also deletes every pending record with that address (or number), expired
  or not, the most recent one included. Every other user record stays. The number it
  returns is the number of rows that left the store: the user records and the rows of
  the other tables deleted with them.
\<close>

theorem cleanup_expired_registrations_effect:
  "users (snd (cleanup_expired_registrations now em ph d)) =
     filter (\<lambda>u. \<not> (registration_pending u
                      \<and> (created_at u < now - minutes 5
                          \<or> (truthy em \<and> em = Some (email u))
                          \<or> (truthy ph \<and> ph = Some (phone_number u)))))
        (users d)
   \<and> fst (cleanup_expired_registrations now em ph d)
       + row_count (snd (cleanup_expired_registrations now em ph d)) = row_count d"
proof -
  have eq: "(\<lambda>u. \<not> final_query now em ph u) =
        (\<lambda>u. \<not> (registration_pending u
                      \<and> (created_at u < now - minutes 5
                          \<or> (truthy em \<and> em = Some (email u))
                          \<or> (truthy ph \<and> ph = Some (phone_number u)))))"
    by (auto simp add: final_query_def base_query_def specific_query_def fun_eq_iff)
  have b: "fst (cleanup_expired_registrations now em ph d)
       + row_count (snd (cleanup_expired_registrations now em ph d)) = row_count d"
    by (simp add: cleanup_expired_registrations_def delete_users_count)
  show ?thesis
    using users_cleanup[of now em ph d, unfolded eq] b by (rule conjI)
qed

text \<open>
  Claim C3, at a store that holds one pending record for \<open>a@x.com\<close>, one minute old:
  it is within the grace window and it is the most recent pending record of that
  address, the kind of record that the clean-up is to keep. A clean-up for that address
  deletes it and returns 1.
\<close>

theorem cleanup_deletes_latest_pending:
  "registration_pending pending0 \<and> email pending0 = ''a@x.com''
   \<and> minutes 1 - minutes 5 < created_at pending0
   \<and> cleanup_expired_registrations (minutes 1) (Some ''a@x.com'') None
        (empty_db\<lparr>users := [pending0]\<rparr>) = (1, empty_db)"
  by code_simp

section \<open>Saving a user\<close>

lemma Model_save_Inl:
  "Model_save now self d = (Inl e, d') \<Longrightarrow> e = IntegrityError \<and> d' = d"
  by (auto simp add: Model_save_def Let_def split: if_splits)

lemma Model_save_Inr:
  "Model_save now self d = (Inr u, d') \<Longrightarrow>
     u \<in> set (users d') \<and> email u = email self \<and> phone_number u = phone_number self
     \<and> is_active u = is_active self \<and> is_staff u = is_staff self
     \<and> is_superuser u = is_superuser self
     \<and> registration_pending u = registration_pending self \<and> \<not> adding u"
  by (auto simp add: Model_save_def Let_def split: if_splits)

lemma save_Inl:
  "save now self d = (Inl e, d') \<Longrightarrow> e = IntegrityError \<and> set (users d') \<subseteq> set (users d)"
  by (auto simp add: save_def Let_def users_delete_users split: if_splits dest!: Model_save_Inl)

lemma save_Inr:
  "save now self d = (Inr u, d') \<Longrightarrow>
     u \<in> set (users d') \<and> email u = email self \<and> phone_number u = phone_number self
     \<and> is_active u = is_active self \<and> is_staff u = is_staff self
     \<and> is_superuser u = is_superuser self
     \<and> registration_pending u = registration_pending self \<and> \<not> adding u"
  by (auto simp add: save_def Let_def split: if_splits dest!: Model_save_Inr)

lemma save_new_phone_violation:
  assumes "v \<in> set (users d)" "\<not> registration_pending v"
    "phone_number v = phone_number self" "adding self" "\<not> registration_pending self"
  shows "save now self d = (Inl IntegrityError, d)"
  using assms
  by (auto simp add: save_def Let_def Model_save_def violates_constraints_def
        unique_verified_phone_violated_def list_ex_iff)

lemma full_clean_email_taken:
  assumes "v \<in> set rows" "email v = email self" "adding self"
  shows "full_clean fw rows self \<noteq> []"
proof -
  have "email_taken (other_rows rows self) self"
    using assms by (auto simp add: email_taken_def other_rows_def list_ex_iff)
  then show ?thesis
    by (cases "''email'' \<in> set (clean_fields fw self)")
       (auto simp add: full_clean_def Let_def)
qed

section \<open>Registration\<close>

lemma normalize_email_nonempty: "s \<noteq> [] \<Longrightarrow> normalize_email s \<noteq> []"
  by (simp add: normalize_email_def split: option.splits prod.splits)

text \<open>Normalising a normalised address changes nothing.\<close>

lemma strip_fixed:
  assumes "s \<noteq> []" "\<not> is_space (hd s)" "\<not> is_space (last s)"
  shows "strip s = s"
proof -
  have a: "dropWhile is_space s = s" using assms(1,2) by (cases s) auto
  have "rev s \<noteq> []" "\<not> is_space (hd (rev s))"
    using assms(1,3) by (simp_all add: hd_rev)
  then have "dropWhile is_space (rev s) = rev s" by (cases "rev s") auto
  then show ?thesis by (simp add: strip_def a)
qed

lemma strip_ends:
  assumes "strip s \<noteq> []"
  shows "\<not> is_space (hd (strip s)) \<and> \<not> is_space (last (strip s))"
proof -
  define t where "t = dropWhile is_space s"
  define u where "u = dropWhile is_space (rev t)"
  have su: "strip s = rev u" by (simp add: strip_def t_def u_def)
  have une: "u \<noteq> []" using assms su by simp
  have hu: "\<not> is_space (hd u)" unfolding u_def using une hd_dropWhile u_def by blast
  have tne: "t \<noteq> []" using une u_def by auto
  have ht: "\<not> is_space (hd t)" unfolding t_def using tne hd_dropWhile t_def by blast
  have "last (rev u) = hd u" using une by (simp add: last_rev)
  moreover have "hd (rev u) = hd t"
  proof -
    obtain ys where ys: "rev t = ys @ u" "\<forall>y\<in>set ys. is_space y"
      by (metis takeWhile_dropWhile_id u_def set_takeWhileD)
    then have "t = rev u @ rev ys" by (metis rev_append rev_rev_ident)
    then show ?thesis using une by simp
  qed
  ultimately show ?thesis using hu ht su by simp
qed

lemma rsplit_at_Some:
  assumes "rsplit_at t = Some (n, dm)"
  shows "t = n @ ''@'' @ dm \<and> CHR ''@'' \<notin> set dm"
proof -
  have m: "CHR ''@'' \<in> set t" using assms by (auto simp add: rsplit_at_def split: if_splits)
  define p where "p = (\<lambda>c. c \<noteq> CHR ''@'')"
  have n: "n = rev (tl (dropWhile p (rev t)))" and dm: "dm = rev (takeWhile p (rev t))"
    using assms m by (auto simp add: rsplit_at_def p_def)
  have "dropWhile p (rev t) \<noteq> []" using m by (auto simp add: p_def dropWhile_eq_Nil_conv)
  moreover have "hd (dropWhile p (rev t)) = CHR ''@''"
    using calculation hd_dropWhile[of p "rev t"] by (auto simp add: p_def)
  ultimately have "dropWhile p (rev t) = CHR ''@'' # tl (dropWhile p (rev t))"
    by (metis list.collapse)
  then have "rev t = takeWhile p (rev t) @ CHR ''@'' # tl (dropWhile p (rev t))"
    by (metis takeWhile_dropWhile_id)
  then have "t = rev (tl (dropWhile p (rev t))) @ CHR ''@'' # rev (takeWhile p (rev t))"
    by (metis rev_append rev.simps(2) rev_rev_ident append_Cons append_Nil append_assoc)
  moreover have "CHR ''@'' \<notin> set dm"
    unfolding dm using set_takeWhileD[of _ p "rev t"] by (auto simp add: p_def)
  ultimately show ?thesis using n dm by simp
qed

lemma rsplit_at_append:
  assumes "CHR ''@'' \<notin> set dm"
  shows "rsplit_at (n @ ''@'' @ dm) = Some (n, dm)"
proof -
  define p where "p = (\<lambda>c. c \<noteq> CHR ''@'')"
  have r: "rev (n @ ''@'' @ dm) = rev dm @ CHR ''@'' # rev n" by simp
  have all: "\<forall>x\<in>set (rev dm). p x" using assms by (auto simp add: p_def)
  have "takeWhile p (rev dm @ CHR ''@'' # rev n) = rev dm @ takeWhile p (CHR ''@'' # rev n)"
    using all by (intro takeWhile_append2) blast
  then have t: "takeWhile p (rev dm @ CHR ''@'' # rev n) = rev dm"
    by (simp add: p_def)
  have "dropWhile p (rev dm @ CHR ''@'' # rev n) = dropWhile p (CHR ''@'' # rev n)"
    using all by (intro dropWhile_append2) blast
  then have dw: "dropWhile p (rev dm @ CHR ''@'' # rev n) = CHR ''@'' # rev n"
    by (simp add: p_def)
  show ?thesis
    unfolding rsplit_at_def r p_def[symmetric] t dw by simp
qed

lemma lower_char_upper:
  "65 \<le> (of_char c :: nat) \<and> (of_char c :: nat) \<le> 90 \<Longrightarrow>
     lower_char c = char_of ((of_char c :: nat) + 32)"
  by (simp add: lower_char_def)

lemma lower_char_other:
  "\<not> (65 \<le> (of_char c :: nat) \<and> (of_char c :: nat) \<le> 90) \<Longrightarrow> lower_char c = c"
  unfolding lower_char_def by (rule if_not_P)

lemma of_char_lower_upper:
  assumes "65 \<le> (of_char c :: nat) \<and> (of_char c :: nat) \<le> 90"
  shows "(of_char (lower_char c) :: nat) = of_char c + 32"
  using assms by (simp add: lower_char_upper)

lemma lower_char_at: "lower_char c = CHR ''@'' \<longleftrightarrow> c = CHR ''@''"
proof
  assume a: "lower_char c = CHR ''@''"
  show "c = CHR ''@''"
  proof (cases "65 \<le> (of_char c :: nat) \<and> (of_char c :: nat) \<le> 90")
    case True
    from of_char_lower_upper[OF True] show ?thesis using a True by simp
  next
    case False
    from lower_char_other[OF False] show ?thesis using a by simp
  qed
next
  assume "c = CHR ''@''"
  then show "lower_char c = CHR ''@''" by (simp add: lower_char_def)
qed

lemma lower_char_space: "is_space (lower_char c) = is_space c"
proof (cases "65 \<le> (of_char c :: nat) \<and> (of_char c :: nat) \<le> 90")
  case True
  from of_char_lower_upper[OF True] show ?thesis using True by (auto simp add: is_space_def)
next
  case False
  from lower_char_other[OF False] show ?thesis by simp
qed

lemma lower_char_idem: "lower_char (lower_char c) = lower_char c"
proof (cases "65 \<le> (of_char c :: nat) \<and> (of_char c :: nat) \<le> 90")
  case True
  from of_char_lower_upper[OF True]
  have "\<not> (65 \<le> (of_char (lower_char c) :: nat) \<and> (of_char (lower_char c) :: nat) \<le> 90)"
    using True by simp
  then show ?thesis by (rule lower_char_other)
next
  case False
  from lower_char_other[OF False] show ?thesis by simp
qed

lemma normalize_email_idem: "normalize_email (normalize_email s) = normalize_email s"
proof (cases "rsplit_at (strip s)")
  case None
  then show ?thesis by (simp add: normalize_email_def)
next
  case (Some a)
  obtain n dm where a: "a = (n, dm)" by (cases a)
  from rsplit_at_Some[OF Some[unfolded a]]
  have t: "strip s = n @ ''@'' @ dm" and nat: "CHR ''@'' \<notin> set dm" by simp_all
  define r where "r = n @ ''@'' @ lower dm"
  have nr: "normalize_email s = r" by (simp add: normalize_email_def Some a r_def)
  have ne: "strip s \<noteq> []" using t by simp
  note ends = strip_ends[OF ne]
  have h: "\<not> is_space (hd r)"
    using ends t by (cases n) (auto simp add: r_def)
  have l: "\<not> is_space (last r)"
  proof (cases "dm = []")
    case True
    then show ?thesis using ends t by (simp add: r_def lower_def)
  next
    case False
    then have "last r = lower_char (last dm)" "last (strip s) = last dm"
      by (simp_all add: r_def t lower_def last_map)
    then show ?thesis using ends by (simp add: lower_char_space)
  qed
  have sr: "strip r = r" using h l by (intro strip_fixed) (simp_all add: r_def)
  have "CHR ''@'' \<notin> set (lower dm)"
  proof
    assume "CHR ''@'' \<in> set (lower dm)"
    then obtain x where "x \<in> set dm" "lower_char x = CHR ''@''"
      by (auto simp add: lower_def)
    then show False using nat by (simp add: lower_char_at)
  qed
  then have "rsplit_at r = Some (n, lower dm)" unfolding r_def by (rule rsplit_at_append)
  then have "normalize_email r = n @ ''@'' @ lower (lower dm)"
    by (simp add: normalize_email_def sr)
  moreover have "lower (lower dm) = lower dm" by (simp add: lower_def lower_char_idem)
  ultimately show ?thesis by (simp add: nr r_def)
qed

lemma first_created_desc_None [simp]: "first_created_desc xs = None \<longleftrightarrow> xs = []"
  by (induction xs) (auto split: option.splits)

lemma get_or_setdefault: "get_or (setdefault a v) w = get_or a v"
  by (cases a) (simp_all add: get_or_def setdefault_def)

lemma new_user_fields:
  "adding (new_user fw e pw kw)" "email (new_user fw e pw kw) = e"
  "phone_number (new_user fw e pw kw) = get_or (kw_phone_number kw) []"
  "registration_pending (new_user fw e pw kw) = get_or (kw_registration_pending kw) True"
  "is_active (new_user fw e pw kw) = get_or (kw_is_active kw) False"
  "is_staff (new_user fw e pw kw) = get_or (kw_is_staff kw) False"
  "is_superuser (new_user fw e pw kw) = get_or (kw_is_superuser kw) False"
  by (simp_all add: new_user_def model_init_def set_password_def Let_def get_or_setdefault)

text \<open>
  The clean-up that opens \<open>create_user\<close> is called with the address, so it removes
  every pending record of that address, and the query for a pending record that follows
  finds nothing: the branch that reports a pending verification is never taken.
\<close>

lemma create_user_unfold:
  assumes "truthy em"
  shows "create_user fw now em pw extra_fields d =
     (let em1 = normalize_email (the em);
          d1 = snd (cleanup_expired_registrations now (Some em1) None d);
          user1 = new_user fw em1 pw extra_fields;
          errors = full_clean fw (users d1) user1
      in if errors \<noteq> [] then (Inl (ValidationError errors), d1)
         else (case save now user1 d1 of
                 (Inl IntegrityError, d2) \<Rightarrow>
                   (Inl (ValueError ''An account with this email already exists.''), d2)
               | (Inl e, d2) \<Rightarrow> (Inl e, d2)
               | (Inr saved, d2) \<Rightarrow> (Inr saved, d2)))"
proof -
  from assms obtain s where em: "em = Some s" and s: "s \<noteq> []"
    by (cases em) (auto simp add: truthy_def)
  have ne: "normalize_email s \<noteq> []" using s by (rule normalize_email_nonempty)
  show ?thesis
    using assms
    by (simp add: create_user_def Let_def em no_pending_after_cleanup[OF ne] new_user_def)
qed

lemma create_user_Inr:
  assumes "create_user fw now em pw extra_fields d = (Inr u, d')"
  shows "u \<in> set (users d')
     \<and> is_active u = get_or (kw_is_active extra_fields) False
     \<and> registration_pending u = get_or (kw_registration_pending extra_fields) True
     \<and> is_staff u = get_or (kw_is_staff extra_fields) False
     \<and> is_superuser u = get_or (kw_is_superuser extra_fields) False"
proof -
  have t: "truthy em"
    using assms by (cases "truthy em") (auto simp add: create_user_def)
  define em1 where "em1 = normalize_email (the em)"
  define d1 where "d1 = snd (cleanup_expired_registrations now (Some em1) None d)"
  define user1 where "user1 = new_user fw em1 pw extra_fields"
  have "save now user1 d1 = (Inr u, d')"
    using assms create_user_unfold[OF t, of fw now pw extra_fields d]
    by (auto simp add: Let_def em1_def d1_def user1_def
          split: if_splits prod.splits sum.splits error.splits)
  from save_Inr[OF this] show ?thesis
    by (simp add: user1_def new_user_fields)
qed

text \<open>
  Claim C1, at a store that holds one pending record for \<open>a@x.com\<close>, one minute old and
  so well within the grace window. A registration for the same address does not fail:
  the pending record is deleted and a new record is created.
\<close>

theorem create_user_replaces_live_pending:
  "registration_pending pending0 \<and> email pending0 = ''a@x.com''
   \<and> minutes 1 - minutes 5 < created_at pending0
   \<and> create_user django0 (minutes 1) (Some ''a@x.com'') (Some ''secret'')
        (no_kwargs\<lparr>kw_phone_number := Some ''222''\<rparr>) (empty_db\<lparr>users := [pending0]\<rparr>)
      = (Inr (registered 1 ''a@x.com'' ''222'' (minutes 1)),
         empty_db\<lparr>users := [registered 1 ''a@x.com'' ''222'' (minutes 1)]\<rparr>)"
  by code_simp

text \<open>
  Claim C8, as the code has it. When a confirmed record holds the address given to
  \<open>create_user\<close>, or holds the given phone number while the new record is itself
  created confirmed (\<open>registration_pending=False\<close> among the keyword arguments), the call
  fails, with the validation error of \<open>full_clean\<close> or with the \<open>ValueError\<close>
  "An account with this email already exists.", and the store holds no record that it
  did not hold before.
\<close>

theorem create_user_duplicate:
  assumes "truthy em" and "v \<in> set (users d)" and "\<not> registration_pending v"
    and "email v = normalize_email (the em)
         \<or> (kw_registration_pending extra_fields = Some False
             \<and> phone_number v = get_or (kw_phone_number extra_fields) [])"
  shows "(fst (create_user fw now em pw extra_fields d)
            = Inl (ValueError ''An account with this email already exists.'')
          \<or> (\<exists>errors. errors \<noteq> []
                \<and> fst (create_user fw now em pw extra_fields d) = Inl (ValidationError errors)))
         \<and> set (users (snd (create_user fw now em pw extra_fields d))) \<subseteq> set (users d)"
proof -
  define em1 where "em1 = normalize_email (the em)"
  define d1 where "d1 = snd (cleanup_expired_registrations now (Some em1) None d)"
  define user1 where "user1 = new_user fw em1 pw extra_fields"
  have v1: "v \<in> set (users d1)"
    unfolding d1_def using assms(2,3) by (rule cleanup_keeps_confirmed)
  have sub: "set (users d1) \<subseteq> set (users d)"
    unfolding d1_def by (rule users_cleanup_subset)
  have cu: "create_user fw now em pw extra_fields d =
     (if full_clean fw (users d1) user1 \<noteq> []
      then (Inl (ValidationError (full_clean fw (users d1) user1)), d1)
      else (case save now user1 d1 of
                 (Inl IntegrityError, d2) \<Rightarrow>
                   (Inl (ValueError ''An account with this email already exists.''), d2)
               | (Inl e, d2) \<Rightarrow> (Inl e, d2)
               | (Inr saved, d2) \<Rightarrow> (Inr saved, d2)))"
    using create_user_unfold[OF assms(1), of fw now pw extra_fields d]
    by (simp add: Let_def em1_def d1_def user1_def)
  show ?thesis
  proof (cases "full_clean fw (users d1) user1 = []")
    case False
    then show ?thesis using sub by (auto simp add: cu)
  next
    case True
    have "\<not> (email v = email user1)"
      using full_clean_email_taken[OF v1, of user1 fw] True
      by (auto simp add: user1_def new_user_fields)
    then have ph: "kw_registration_pending extra_fields = Some False"
      "phone_number v = get_or (kw_phone_number extra_fields) []"
      using assms(4) by (auto simp add: user1_def new_user_fields em1_def)
    have "save now user1 d1 = (Inl IntegrityError, d1)"
      using v1 assms(3) ph
      by (intro save_new_phone_violation[of v])
         (auto simp add: user1_def new_user_fields get_or_def)
    then show ?thesis using True sub by (simp add: cu)
  qed
qed

theorem create_user_duplicate_witness:
  "truthy (Some ''b@x.com'') \<and> holder0 \<in> set (users (empty_db\<lparr>users := [holder0]\<rparr>))
   \<and> \<not> registration_pending holder0 \<and> email holder0 = normalize_email ''b@x.com''
   \<and> fst (create_user django0 (minutes 1) (Some ''b@x.com'') (Some ''secret'')
            (no_kwargs\<lparr>kw_phone_number := Some ''222''\<rparr>) (empty_db\<lparr>users := [holder0]\<rparr>))
       = Inl (ValidationError [''email''])
   \<and> set (users (snd (create_user django0 (minutes 1) (Some ''b@x.com'') (Some ''secret'')
            (no_kwargs\<lparr>kw_phone_number := Some ''222''\<rparr>) (empty_db\<lparr>users := [holder0]\<rparr>))))
       \<subseteq> set (users (empty_db\<lparr>users := [holder0]\<rparr>))"
proof -
  have h1: "truthy (Some ''b@x.com'')" by simp
  have h2: "holder0 \<in> set (users (empty_db\<lparr>users := [holder0]\<rparr>))" by simp
  have h3: "\<not> registration_pending holder0" by (simp add: holder0_def)
  have h4: "email holder0 = normalize_email ''b@x.com''" by code_simp
  have h5: "fst (create_user django0 (minutes 1) (Some ''b@x.com'') (Some ''secret'')
            (no_kwargs\<lparr>kw_phone_number := Some ''222''\<rparr>) (empty_db\<lparr>users := [holder0]\<rparr>))
       = Inl (ValidationError [''email''])" by code_simp
  have h4': "email holder0 = normalize_email (the (Some ''b@x.com''))
         \<or> (kw_registration_pending (no_kwargs\<lparr>kw_phone_number := Some ''222''\<rparr>) = Some False
             \<and> phone_number holder0
                 = get_or (kw_phone_number (no_kwargs\<lparr>kw_phone_number := Some ''222''\<rparr>)) [])"
    using h4 by simp
  from create_user_duplicate[OF h1 h2 h3 h4', of django0 "minutes 1" "Some ''secret''"]
  show ?thesis using h1 h2 h3 h4 h5 by blast
qed

text \<open>
  The claim as it was stated fails for the phone number: a confirmed account holds the
  number 111, and a registration under another address with the same number succeeds
  and leaves a second record with that number.
\<close>

theorem create_user_shares_confirmed_phone:
  "\<not> registration_pending holder0 \<and> phone_number holder0 = ''111''
   \<and> create_user django0 (minutes 1) (Some ''c@x.com'') (Some ''secret'')
        (no_kwargs\<lparr>kw_phone_number := Some ''111''\<rparr>) (empty_db\<lparr>users := [holder0]\<rparr>)
      = (Inr (registered 2 ''c@x.com'' ''111'' (minutes 1)),
         empty_db\<lparr>users := [holder0, registered 2 ''c@x.com'' ''111'' (minutes 1)]\<rparr>)"
  by code_simp

text \<open>
  Claim C10, as the code has it. An account created through \<open>create_superuser\<close> with
  neither \<open>registration_pending\<close> nor \<open>is_active\<close> among the keyword arguments is active
  and pending at once (and is staff and superuser): \<open>create_user\<close> applies
  \<open>registration_pending=True\<close> and \<open>is_active=False\<close> only as defaults, and
  \<open>create_superuser\<close> has set \<open>is_active=True\<close> before.
\<close>

theorem create_superuser_flags:
  assumes "kw_registration_pending extra_fields = None"
    and "kw_is_active extra_fields = None"
    and "create_superuser fw now em pw extra_fields d = (Inr u, d')"
  shows "is_active u \<and> registration_pending u \<and> is_staff u \<and> is_superuser u
         \<and> u \<in> set (users d')"
proof -
  define extra1 where "extra1 = extra_fields
            \<lparr>kw_is_staff := setdefault (kw_is_staff extra_fields) True,
             kw_is_superuser := setdefault (kw_is_superuser extra_fields) True,
             kw_is_active := setdefault (kw_is_active extra_fields) True\<rparr>"
  have st: "kw_is_staff extra1 = Some True" and su: "kw_is_superuser extra1 = Some True"
    and cu: "create_user fw now em pw extra1 d = (Inr u, d')"
    using assms(3) unfolding create_superuser_def Let_def extra1_def [symmetric]
    by (auto split: if_splits)
  have "kw_is_active extra1 = Some True" "kw_registration_pending extra1 = None"
    using assms(1,2) by (simp_all add: extra1_def setdefault_def)
  with create_user_Inr[OF cu] st su show ?thesis
    by (simp add: get_or_def)
qed

theorem create_superuser_flags_witness:
  "kw_registration_pending (no_kwargs\<lparr>kw_phone_number := Some ''999''\<rparr>) = None
   \<and> kw_is_active (no_kwargs\<lparr>kw_phone_number := Some ''999''\<rparr>) = None
   \<and> create_superuser django0 0 (Some ''root@x.com'') (Some ''secret'')
        (no_kwargs\<lparr>kw_phone_number := Some ''999''\<rparr>) empty_db
      = (Inr ((registered 1 ''root@x.com'' ''999'' 0)
               \<lparr>is_active := True, is_staff := True, is_superuser := True\<rparr>),
         empty_db\<lparr>users := [(registered 1 ''root@x.com'' ''999'' 0)
               \<lparr>is_active := True, is_staff := True, is_superuser := True\<rparr>]\<rparr>)
   \<and> is_active ((registered 1 ''root@x.com'' ''999'' 0)
               \<lparr>is_active := True, is_staff := True, is_superuser := True\<rparr>)
   \<and> registration_pending ((registered 1 ''root@x.com'' ''999'' 0)
               \<lparr>is_active := True, is_staff := True, is_superuser := True\<rparr>)"
proof -
  have h1: "kw_registration_pending (no_kwargs\<lparr>kw_phone_number := Some ''999''\<rparr>) = None"
    by (simp add: no_kwargs_def)
  have h2: "kw_is_active (no_kwargs\<lparr>kw_phone_number := Some ''999''\<rparr>) = None"
    by (simp add: no_kwargs_def)
  have h3: "create_superuser django0 0 (Some ''root@x.com'') (Some ''secret'')
        (no_kwargs\<lparr>kw_phone_number := Some ''999''\<rparr>) empty_db
      = (Inr ((registered 1 ''root@x.com'' ''999'' 0)
               \<lparr>is_active := True, is_staff := True, is_superuser := True\<rparr>),
         empty_db\<lparr>users := [(registered 1 ''root@x.com'' ''999'' 0)
               \<lparr>is_active := True, is_staff := True, is_superuser := True\<rparr>]\<rparr>)"
    by code_simp
  from create_superuser_flags[OF h1 h2 h3] show ?thesis using h1 h2 h3 by simp
qed

text \<open>
  The claim as it was stated fails when the caller passes \<open>is_active=False\<close>:
  \<open>create_superuser\<close> checks \<open>is_staff\<close> and \<open>is_superuser\<close> only, and the account it
  creates is not active.
\<close>

theorem create_superuser_inactive:
  "kw_registration_pending (no_kwargs\<lparr>kw_phone_number := Some ''999'',
        kw_is_active := Some False\<rparr>) = None
   \<and> create_superuser django0 0 (Some ''root@x.com'') (Some ''secret'')
        (no_kwargs\<lparr>kw_phone_number := Some ''999'', kw_is_active := Some False\<rparr>) empty_db
      = (Inr ((registered 1 ''root@x.com'' ''999'' 0)
               \<lparr>is_staff := True, is_superuser := True\<rparr>),
         empty_db\<lparr>users := [(registered 1 ''root@x.com'' ''999'' 0)
               \<lparr>is_staff := True, is_superuser := True\<rparr>]\<rparr>)
   \<and> is_active ((registered 1 ''root@x.com'' ''999'' 0)
               \<lparr>is_staff := True, is_superuser := True\<rparr>) = False"
  by code_simp

section \<open>Validity of one-time codes\<close>

text \<open>
  Claim C5. Once the attempts counter of an OTP has reached 3, \<open>is_valid\<close> is false
  whatever the clock reads, whatever the flag \<open>is_verified\<close> holds and whatever code the OTP
  carries: no field other than \<open>attempts\<close> can make it valid again. (\<open>is_valid\<close> takes no
  candidate code, so none can influence it.)
\<close>

theorem is_valid_attempts_exhausted:
  "3 \<le> attempts self \<Longrightarrow>
     \<not> is_valid now (self\<lparr>is_verified := v, otp_created_at := t, code := c\<rparr>)"
  by (simp add: is_valid_def)

theorem is_valid_attempts_exhausted_witness:
  "(3::int) \<le> attempts \<lparr>otp_id = 1, otp_user = Some 1, code = ''123456'', otp_created_at = 0,
        is_verified = False, attempts = 3, otp_type = ''EMAIL''\<rparr>
   \<and> \<not> is_valid 0 (\<lparr>otp_id = 1, otp_user = Some 1, code = ''123456'', otp_created_at = 0,
        is_verified = False, attempts = 3, otp_type = ''EMAIL''\<rparr>
        \<lparr>is_verified := False, otp_created_at := 0, code := ''123456''\<rparr>)"
  using is_valid_attempts_exhausted
    [where self = "\<lparr>otp_id = 1, otp_user = Some 1, code = ''123456'', otp_created_at = 0,
        is_verified = False, attempts = 3, otp_type = ''EMAIL''\<rparr>"
       and now = 0 and v = False and t = 0 and c = "''123456''"]
  by simp

text \<open>
  Claim C6. \<open>is_valid\<close> is true exactly when the OTP is unverified, has fewer than 3
  attempts, and at most 10 minutes have passed since it was created.
\<close>

theorem is_valid_iff:
  "is_valid now self =
     (is_verified self = False \<and> attempts self < 3 \<and> now - otp_created_at self \<le> minutes 10)"
  by (auto simp add: is_valid_def)

section \<open>Issuing one-time codes: properties\<close>

lemma str_digit: "n < 10 \<Longrightarrow> str_nat n = [digit_char n]"
  by (simp add: str_nat.simps)

lemma digit_char_is_digit: "n < 10 \<Longrightarrow> is_digit (digit_char n)"
proof -
  assume "n < 10"
  then have "n \<in> {0,1,2,3,4,5,6,7,8,9}" by auto
  moreover have "is_digit (digit_char 0)" "is_digit (digit_char 1)" "is_digit (digit_char 2)"
    "is_digit (digit_char 3)" "is_digit (digit_char 4)" "is_digit (digit_char 5)"
    "is_digit (digit_char 6)" "is_digit (digit_char 7)" "is_digit (digit_char 8)"
    "is_digit (digit_char 9)"
    by code_simp+
  ultimately show ?thesis by auto
qed

lemma str_randint_digit:
  "\<exists>c. str_int (randint 0 9 raw) = [c] \<and> is_digit c"
proof -
  have r: "randint 0 9 raw = int (raw mod 10)" by (simp add: randint_def)
  have "raw mod 10 < 10" by simp
  then show ?thesis
    unfolding r str_int_def using str_digit digit_char_is_digit by auto
qed

lemma otp_code_six_digits:
  "length (concat (map (\<lambda>i. str_int (randint 0 9 (rng i))) [0..<6])) = 6
   \<and> list_all is_digit (concat (map (\<lambda>i. str_int (randint 0 9 (rng i))) [0..<6]))"
proof -
  have "\<And>xs. length (concat (map (\<lambda>i. str_int (randint 0 9 (rng i))) xs)) = length xs
        \<and> list_all is_digit (concat (map (\<lambda>i. str_int (randint 0 9 (rng i))) xs))"
  proof -
    fix xs :: "nat list"
    show "length (concat (map (\<lambda>i. str_int (randint 0 9 (rng i))) xs)) = length xs
        \<and> list_all is_digit (concat (map (\<lambda>i. str_int (randint 0 9 (rng i))) xs))"
    proof (induction xs)
      case Nil then show ?case by simp
    next
      case (Cons x xs)
      obtain c where "str_int (randint 0 9 (rng x)) = [c]" "is_digit c"
        using str_randint_digit by blast
      with Cons show ?case by simp
    qed
  qed
  from this[of "[0..<6]"] show ?thesis by simp
qed

lemma filter_map_unaffected:
  "(\<And>x. x \<in> set xs \<Longrightarrow> f x \<noteq> x \<Longrightarrow> \<not> P x \<and> \<not> P (f x)) \<Longrightarrow>
     filter P (map f xs) = filter P xs"
proof (induction xs)
  case Nil
  then show ?case by simp
next
  case (Cons x xs)
  have "filter P (map f xs) = filter P xs" using Cons by simp
  moreover have "(if P (f x) then [f x] else []) = (if P x then [x] else [])"
    using Cons.prems[of x] by (cases "f x = x") auto
  ultimately show ?case by (simp split: if_splits)
qed

lemma otp_id_supersede:
  "otp_id \<circ> (\<lambda>t. if P t then t\<lparr>is_verified := True\<rparr> else t) = otp_id"
  by (auto simp add: fun_eq_iff)

lemma create_otp_for_user_Inr:
  assumes "create_otp_for_user rng now user ty d = (Inr new, d')"
  shows "new = \<lparr>otp_id = fresh_pk (map otp_id (otps d)), otp_user = user,
                code = concat (map (\<lambda>i. str_int (randint 0 9 (rng i))) [0..<6]),
                otp_created_at = now, is_verified = False, attempts = 0, otp_type = ty\<rparr>"
    and "otps d' = map (\<lambda>t. if supersedes user ty t then t\<lparr>is_verified := True\<rparr> else t)
                     (otps d) @ [new]"
proof -
  define d1 where "d1 = d\<lparr>otps := map (\<lambda>t. if supersedes user ty t
                                             then t\<lparr>is_verified := True\<rparr> else t) (otps d)\<rparr>"
  define c where "c = concat (map (\<lambda>i. str_int (randint 0 9 (rng i))) [0..<6])"
  have ids: "map otp_id (otps d1) = map otp_id (otps d)"
    by (simp add: d1_def otp_id_supersede)
  have "OTP_create now user c ty d1 = (Inr new, d')"
    using assms by (simp add: create_otp_for_user_def Let_def d1_def c_def)
  then have "new = \<lparr>otp_id = fresh_pk (map otp_id (otps d1)), otp_user = user, code = c,
                 otp_created_at = now, is_verified = False, attempts = 0, otp_type = ty\<rparr>
      \<and> d' = d1\<lparr>otps := otps d1 @ [new]\<rparr>"
    by (auto simp add: OTP_create_def Let_def split: option.splits if_splits)
  then show "new = \<lparr>otp_id = fresh_pk (map otp_id (otps d)), otp_user = user,
                code = concat (map (\<lambda>i. str_int (randint 0 9 (rng i))) [0..<6]),
                otp_created_at = now, is_verified = False, attempts = 0, otp_type = ty\<rparr>"
    and "otps d' = map (\<lambda>t. if supersedes user ty t then t\<lparr>is_verified := True\<rparr> else t)
                     (otps d) @ [new]"
    by (simp_all add: ids c_def) (simp add: d1_def)
qed

lemma supersede_none_left:
  "filter (supersedes user ty)
     (map (\<lambda>t. if supersedes user ty t then t\<lparr>is_verified := True\<rparr> else t) xs) = []"
  by (induction xs) (simp_all add: supersedes_def)

lemma supersede_other:
  assumes "\<not> (u = user \<and> p = ty)"
  shows "filter (supersedes u p)
     (map (\<lambda>t. if supersedes user ty t then t\<lparr>is_verified := True\<rparr> else t) xs)
     = filter (supersedes u p) xs"
  using assms by (induction xs) (auto simp add: supersedes_def)

text \<open>
  Claim C4. When \<open>create_otp_for_user\<close> completes, every code of that user and purpose
  that was unverified before is marked verified, at its place in the table; exactly one
  unverified code of that user and purpose exists, the new one, with no attempts and a
  code of six decimal digits. And a store with at most one unverified code for every
  user and purpose is one still after the call.
\<close>

theorem create_otp_for_user_effect:
  assumes "create_otp_for_user rng now user ty d = (Inr new, d')"
  shows "(\<forall>i < length (otps d). supersedes user ty (otps d ! i) \<longrightarrow>
             otps d' ! i = (otps d ! i)\<lparr>is_verified := True\<rparr>)
       \<and> filter (supersedes user ty) (otps d') = [new]
       \<and> attempts new = 0 \<and> length (code new) = 6 \<and> list_all is_digit (code new)
       \<and> ((\<forall>u p. length (filter (supersedes u p) (otps d)) \<le> 1) \<longrightarrow>
           (\<forall>u p. length (filter (supersedes u p) (otps d')) \<le> 1))"
proof -
  let ?f = "\<lambda>t. if supersedes user ty t then t\<lparr>is_verified := True\<rparr> else t"
  note new = create_otp_for_user_Inr(1)[OF assms]
  have d': "otps d' = map ?f (otps d) @ [new]"
    by (rule create_otp_for_user_Inr(2)[OF assms])
  have fields: "otp_user new = user" "otp_type new = ty" "is_verified new = False"
    "attempts new = 0" "code new = concat (map (\<lambda>i. str_int (randint 0 9 (rng i))) [0..<6])"
    by (simp_all add: new)
  have sn: "supersedes user ty new" by (simp add: fields supersedes_def)
  have a: "\<forall>i < length (otps d). supersedes user ty (otps d ! i) \<longrightarrow>
             otps d' ! i = (otps d ! i)\<lparr>is_verified := True\<rparr>"
    by (simp add: d' nth_append)
  have b: "filter (supersedes user ty) (otps d') = [new]"
    using sn by (simp add: d' supersede_none_left)
  have c: "attempts new = 0 \<and> length (code new) = 6 \<and> list_all is_digit (code new)"
    using otp_code_six_digits[of rng] by (simp only: fields)
  have e: "length (filter (supersedes u p) (otps d')) \<le> 1"
    if inv: "\<forall>u p. length (filter (supersedes u p) (otps d)) \<le> 1" for u p
  proof (cases "u = user \<and> p = ty")
    case True
    then show ?thesis using b by simp
  next
    case False
    have "\<not> supersedes u p new" using False by (auto simp add: fields supersedes_def)
    then show ?thesis using inv by (simp add: d' supersede_other[OF False])
  qed
  from a b c e show ?thesis by blast
qed

theorem create_otp_for_user_effect_witness:
  "create_otp_for_user (\<lambda>i. 7 * i + 3) 100 (Some 1) ''EMAIL'' otp_db0
     = (Inr otp_new0,
        otp_db0\<lparr>otps := [(otps otp_db0 ! 0)\<lparr>is_verified := True\<rparr>, otps otp_db0 ! 1, otp_new0]\<rparr>)
   \<and> supersedes (Some 1) ''EMAIL'' (otps otp_db0 ! 0)
   \<and> filter (supersedes (Some 1) ''EMAIL'')
        [(otps otp_db0 ! 0)\<lparr>is_verified := True\<rparr>, otps otp_db0 ! 1, otp_new0] = [otp_new0]
   \<and> attempts otp_new0 = 0 \<and> length (code otp_new0) = 6 \<and> list_all is_digit (code otp_new0)"
proof -
  have h: "create_otp_for_user (\<lambda>i. 7 * i + 3) 100 (Some 1) ''EMAIL'' otp_db0
     = (Inr otp_new0,
        otp_db0\<lparr>otps := [(otps otp_db0 ! 0)\<lparr>is_verified := True\<rparr>, otps otp_db0 ! 1, otp_new0]\<rparr>)"
    by code_simp
  have s: "supersedes (Some 1) ''EMAIL'' (otps otp_db0 ! 0)"
    by code_simp
  from create_otp_for_user_effect[OF h] h s show ?thesis by simp
qed

section \<open>Ratings: properties\<close>

lemma Model_save_ratings:
  "Model_save now self d = (Inr u, d') \<Longrightarrow>
     rating_as_driver u = rating_as_driver self
     \<and> rating_as_passenger u = rating_as_passenger self"
  by (auto simp add: Model_save_def Let_def split: if_splits)

lemma save_ratings:
  "save now self d = (Inr u, d') \<Longrightarrow>
     rating_as_driver u = rating_as_driver self
     \<and> rating_as_passenger u = rating_as_passenger self"
  by (auto simp add: save_def Let_def split: if_splits dest!: Model_save_ratings)

lemma ema_first: "round2 (fadd (fmul (fl (7 / 10)) 0) (fmul (fl (3 / 10)) (fl 4))) = fl (12 / 10)"
  by code_simp

lemma ema_second:
  "round2 (fadd (fmul (fl (7 / 10)) (fl (12 / 10))) (fmul (fl (3 / 10)) (fl 5))) = fl (234 / 100)"
  by code_simp

text \<open>
  Claim C7. A successful \<open>update_rating\<close> sets the rating of the given role to
  \<open>round(0.7 * old + 0.3 * sample, 2)\<close>, computed in floating-point arithmetic, and
  leaves the rating of the other role as it was; the instance it returns is the stored
  row. From the rating 0.0 the sample 4 gives the float 1.2, and from 1.2 the sample 5
  gives the float 2.34.
\<close>

theorem update_rating_effect:
  assumes "update_rating now self new_rating as_driver d = (Inr u, d')"
  shows "role_rating as_driver u =
           round2 (fadd (fmul (fl (7 / 10)) (role_rating as_driver self))
                        (fmul (fl (3 / 10)) (fl new_rating)))
       \<and> role_rating (\<not> as_driver) u = role_rating (\<not> as_driver) self
       \<and> u \<in> set (users d')
       \<and> (role_rating as_driver self = 0 \<and> new_rating = 4 \<longrightarrow>
            role_rating as_driver u = fl (12 / 10))
       \<and> (role_rating as_driver self = fl (12 / 10) \<and> new_rating = 5 \<longrightarrow>
            role_rating as_driver u = fl (234 / 100))"
proof -
  define self1 where "self1 =
            (if as_driver
             then self\<lparr>rating_as_driver :=
                    round2 (fadd (fmul (fl (7 / 10)) (rating_as_driver self))
                                 (fmul (fl (3 / 10)) (fl new_rating)))\<rparr>
             else self\<lparr>rating_as_passenger :=
                    round2 (fadd (fmul (fl (7 / 10)) (rating_as_passenger self))
                                 (fmul (fl (3 / 10)) (fl new_rating)))\<rparr>)"
  have s: "save now self1 d = (Inr u, d')"
    using assms by (simp add: update_rating_def Let_def self1_def)
  have r: "rating_as_driver u = rating_as_driver self1"
    "rating_as_passenger u = rating_as_passenger self1"
    using save_ratings[OF s] by simp_all
  have m: "u \<in> set (users d')" using save_Inr[OF s] by simp
  have a: "role_rating as_driver u =
           round2 (fadd (fmul (fl (7 / 10)) (role_rating as_driver self))
                        (fmul (fl (3 / 10)) (fl new_rating)))"
    by (simp add: role_rating_def r self1_def)
  have b: "role_rating (\<not> as_driver) u = role_rating (\<not> as_driver) self"
    by (simp add: role_rating_def r self1_def)
  have c: "role_rating as_driver u = fl (12 / 10)"
    if "role_rating as_driver self = 0 \<and> new_rating = 4"
    using that a ema_first by simp
  have e: "role_rating as_driver u = fl (234 / 100)"
    if "role_rating as_driver self = fl (12 / 10) \<and> new_rating = 5"
    using that a ema_second by simp
  from a b m c e show ?thesis by blast
qed

theorem update_rating_effect_witness:
  "update_rating 7 holder0 4 True (empty_db\<lparr>users := [holder0]\<rparr>)
     = (Inr rated0, empty_db\<lparr>users := [rated0]\<rparr>)
   \<and> update_rating 8 rated0 5 True (empty_db\<lparr>users := [rated0]\<rparr>)
     = (Inr rated1, empty_db\<lparr>users := [rated1]\<rparr>)
   \<and> role_rating True holder0 = 0 \<and> role_rating True rated0 = fl (12 / 10)
   \<and> role_rating True rated1 = fl (234 / 100)
   \<and> role_rating False rated0 = role_rating False holder0
   \<and> fl (12 / 10) = 5404319552844595 / 4503599627370496
   \<and> fl (234 / 100) = 658651445502935 / 281474976710656"
proof -
  have h: "update_rating 7 holder0 4 True (empty_db\<lparr>users := [holder0]\<rparr>)
     = (Inr rated0, empty_db\<lparr>users := [rated0]\<rparr>)"
    by code_simp
  have h2: "update_rating 8 rated0 5 True (empty_db\<lparr>users := [rated0]\<rparr>)
     = (Inr rated1, empty_db\<lparr>users := [rated1]\<rparr>)"
    by code_simp
  have z: "role_rating True holder0 = 0" by code_simp
  have z2: "role_rating True rated0 = fl (12 / 10)"
    by (simp add: role_rating_def rated0_def)
  have v: "fl (12 / 10) = 5404319552844595 / 4503599627370496" by code_simp
  have v2: "fl (234 / 100) = 658651445502935 / 281474976710656" by code_simp
  from update_rating_effect[OF h] update_rating_effect[OF h2] h h2 z z2 v v2
  show ?thesis by simp
qed

section \<open>Reachable stores: properties\<close>

lemma fold_max_ge: "k \<in> set ks \<Longrightarrow> k \<le> fold max ks (m::nat)"
proof (induction ks arbitrary: m)
  case Nil
  then show ?case by simp
next
  case (Cons a ks)
  have mono: "\<And>m. m \<le> fold max ks m"
  proof -
    fix m :: nat show "m \<le> fold max ks m"
      by (induction ks arbitrary: m) (auto intro: order_trans[OF max.cobounded2])
  qed
  show ?case
  proof (cases "k = a")
    case True
    then show ?thesis using mono[of "max a m"] by simp
  next
    case False
    then show ?thesis using Cons by simp
  qed
qed

lemma fresh_pk_fresh: "fresh_pk ks \<notin> set ks"
  using fold_max_ge[of "fresh_pk ks" ks 0] by (auto simp add: fresh_pk_def)

lemma users_ok_filter: "users_ok us \<Longrightarrow> users_ok (filter P us)"
proof -
  assume a: "users_ok us"
  let ?np = "\<lambda>u. \<not> registration_pending u"
  have c: "filter ?np (filter P us) = filter P (filter ?np us)"
    by (induction us) auto
  have "distinct (map phone_number (filter ?np us))"
    using a unfolding users_ok_def by blast
  then have "distinct (map phone_number (filter P (filter ?np us)))"
    by (rule distinct_map_filter)
  then have "distinct (map phone_number (filter ?np (filter P us)))"
    by (simp only: c)
  moreover have "distinct (map uid (filter P us))" "distinct (map email (filter P us))"
    using a unfolding users_ok_def by (auto intro: distinct_map_filter)
  ultimately show ?thesis unfolding users_ok_def by blast
qed

lemma users_ok_append:
  assumes "users_ok us" "uid row \<notin> set (map uid us)" "\<not> violates_constraints us row"
  shows "users_ok (us @ [row])"
  using assms
  by (auto simp add: users_ok_def violates_constraints_def email_taken_def
        unique_verified_phone_violated_def unique_verified_email_violated_def list_ex_iff)

lemma distinct_map_filter_replace:
  assumes "distinct (map g us)" "distinct (map f (filter P us))"
    and "P self \<Longrightarrow> \<forall>v\<in>set us. g v \<noteq> g self \<and> P v \<longrightarrow> f v \<noteq> f self"
  shows "distinct (map f (filter P (map (\<lambda>v. if g v = g self then self else v) us)))"
  using assms
proof (induction us)
  case Nil
  then show ?case by simp
next
  case (Cons a us)
  let ?r = "\<lambda>v. if g v = g self then self else v"
  have ih: "distinct (map f (filter P (map ?r us)))"
    using Cons by (auto split: if_splits)
  show ?case
  proof (cases "g a = g self")
    case True
    then have "g self \<notin> g ` set us" using Cons.prems(1) by auto
    then have "\<forall>v\<in>set us. g v \<noteq> g self" by (metis imageI)
    then have same: "map ?r us = us" by (induction us) auto
    show ?thesis
    proof (cases "P self")
      case False
      then show ?thesis using True ih by simp
    next
      case Pself: True
      have "f self \<notin> f ` set (filter P us)"
        using Cons.prems(3)[OF Pself] \<open>\<forall>v\<in>set us. g v \<noteq> g self\<close> by auto
      then show ?thesis using True Pself ih same by simp
    qed
  next
    case False
    show ?thesis
    proof (cases "P a")
      case Pa: True
      have "f a \<notin> f ` set (filter P (map ?r us))"
      proof
        assume "f a \<in> f ` set (filter P (map ?r us))"
        then obtain w where w: "w \<in> set us" "P (?r w)" "f (?r w) = f a" by auto
        show False
        proof (cases "g w = g self")
          case True
          then have "P self" "f self = f a" using w by auto
          then show False using Cons.prems(3) False Pa by auto
        next
          case F: False
          then have "P w" "f w = f a" using w by auto
          moreover have "f a \<notin> f ` {x \<in> set us. P x}" using Cons.prems(2) Pa by auto
          ultimately show False using w(1) by (metis (mono_tags, lifting) imageI mem_Collect_eq)
        qed
      qed
      then show ?thesis using False Pa ih by simp
    next
      case False2: False
      then show ?thesis using False ih by simp
    qed
  qed
qed

lemma map_uid_replace:
  "map uid (map (\<lambda>v. if uid v = uid self then self else v) us) = map uid us"
  by (induction us) auto

lemma users_ok_replace:
  assumes "users_ok us"
    and "\<not> violates_constraints (filter (\<lambda>v. uid v \<noteq> uid self) us) self"
  shows "users_ok (map (\<lambda>v. if uid v = uid self then self else v) us)"
proof -
  let ?r = "\<lambda>v. if uid v = uid self then self else v"
  have d: "distinct (map uid us)" using assms(1) by (simp add: users_ok_def)
  have e: "distinct (map email (filter (\<lambda>_. True) (map ?r us)))"
    using assms
    by (intro distinct_map_filter_replace[where g = uid])
       (auto simp add: users_ok_def violates_constraints_def email_taken_def list_ex_iff)
  have p: "distinct (map phone_number (filter (\<lambda>u. \<not> registration_pending u) (map ?r us)))"
    using assms
    by (intro distinct_map_filter_replace[where g = uid])
       (auto simp add: users_ok_def violates_constraints_def
          unique_verified_phone_violated_def list_ex_iff)
  show ?thesis
    using d e p by (simp add: users_ok_def map_uid_replace del: map_map)
qed

lemma users_ok_Model_save:
  assumes "users_ok (users d)"
  shows "users_ok (users (snd (Model_save now self d)))"
proof (cases "\<not> adding self \<and> uid self \<in> set (map uid (users d))")
  case True
  then show ?thesis
    using assms users_ok_replace[of "users d" self]
    by (auto simp add: Model_save_def)
next
  case False
  define row where "row = self\<lparr>uid := (if adding self then fresh_pk (map uid (users d)) else uid self),
                        adding := False, created_at := now\<rparr>"
  have "uid row \<notin> set (map uid (users d))"
    using False fresh_pk_fresh[of "map uid (users d)"] by (auto simp add: row_def)
  then have ap: "\<not> violates_constraints (users d) row \<Longrightarrow> users_ok (users d @ [row])"
    using assms by (intro users_ok_append) auto
  have ms: "Model_save now self d =
      (if violates_constraints (users d) row then (Inl IntegrityError, d)
       else (Inr row, d\<lparr>users := users d @ [row]\<rparr>))"
    unfolding Model_save_def Let_def row_def by (simp only: if_not_P[OF False])
  show ?thesis
  proof (cases "violates_constraints (users d) row")
    case True
    then show ?thesis using assms by (simp add: ms)
  next
    case F: False
    then show ?thesis using ap by (simp add: ms)
  qed
qed

lemma users_ok_delete_users:
  "users_ok (users d) \<Longrightarrow> users_ok (users (snd (delete_users q d)))"
  by (simp add: users_delete_users users_ok_filter)

lemma users_ok_save:
  "users_ok (users d) \<Longrightarrow> users_ok (users (snd (save now self d)))"
  by (simp add: save_def Let_def users_ok_Model_save users_ok_delete_users)

lemma users_RideDetails_save [simp]: "users (snd (RideDetails_save a r d)) = users d"
  by (simp add: RideDetails_save_def Let_def)

lemma users_delete_rides [simp]: "users (snd (delete_rides q d)) = users d"
  by (simp add: delete_rides_def Let_def)

lemma users_Rating_save [simp]: "users (snd (Rating_save a r d)) = users d"
  by (simp add: Rating_save_def Let_def)

lemma users_delete_ratings [simp]: "users (snd (delete_ratings q d)) = users d"
  by (simp add: delete_ratings_def)

lemma reachable_users_ok: "reachable d \<Longrightarrow> users_ok (users d)"
proof (induction rule: reachable.induct)
  case start
  then show ?case by (simp add: users_ok_def empty_db_def)
next
  case (user_save d now self)
  show ?case using user_save.IH by (rule users_ok_save)
next
  case (user_delete d q)
  show ?case using user_delete.IH by (rule users_ok_delete_users)
qed simp_all

lemma at_most_one:
  "distinct (map f xs) \<Longrightarrow> length (filter (\<lambda>x. f x = k) xs) \<le> 1"
proof (induction xs)
  case Nil
  then show ?case by simp
next
  case (Cons a xs)
  show ?case
  proof (cases "f a = k")
    case True
    have "f a \<notin> f ` set xs" using Cons.prems by simp
    then have "\<forall>x\<in>set xs. f x \<noteq> k" using True by (metis imageI)
    then have "filter (\<lambda>x. f x = k) xs = []" by (simp add: filter_empty_conv)
    then show ?thesis using True by simp
  next
    case False
    then show ?thesis using Cons by simp
  qed
qed

lemma length_filter_conj_le:
  "length (filter (\<lambda>x. P x \<and> Q x) xs) \<le> length (filter Q xs)"
  by (induction xs) auto

lemma at_most_one_cond:
  "distinct (map f (filter P xs)) \<Longrightarrow> length (filter (\<lambda>x. P x \<and> f x = k) xs) \<le> 1"
proof -
  assume "distinct (map f (filter P xs))"
  from at_most_one[OF this, of k] show ?thesis by (simp add: conj_commute)
qed

text \<open>
  Claim C2, as the code has it. In every reachable store at most one confirmed record
  (\<open>registration_pending = False\<close>) exists per e-mail address and at most one per phone
  number; and at most one record of any kind exists per e-mail address, because the
  field is declared \<open>unique=True\<close>: pending records never share an address. (They may
  share a phone number, as the two records of \<open>twin_db\<close> do.)
\<close>

theorem reachable_unique_users:
  assumes "reachable d"
  shows "length (filter (\<lambda>u. \<not> registration_pending u \<and> email u = e) (users d)) \<le> 1
       \<and> length (filter (\<lambda>u. \<not> registration_pending u \<and> phone_number u = p) (users d)) \<le> 1
       \<and> length (filter (\<lambda>u. email u = e) (users d)) \<le> 1"
proof -
  have ok: "users_ok (users d)" using assms by (rule reachable_users_ok)
  have a: "length (filter (\<lambda>u. email u = e) (users d)) \<le> 1"
    using ok by (intro at_most_one) (simp add: users_ok_def)
  have "length (filter (\<lambda>u. \<not> registration_pending u \<and> email u = e) (users d))
         \<le> length (filter (\<lambda>u. email u = e) (users d))"
    by (rule length_filter_conj_le)
  then have b: "length (filter (\<lambda>u. \<not> registration_pending u \<and> email u = e) (users d)) \<le> 1"
    using a by linarith
  have c: "length (filter (\<lambda>u. \<not> registration_pending u \<and> phone_number u = p) (users d)) \<le> 1"
    using ok by (intro at_most_one_cond) (simp add: users_ok_def)
  from a b c show ?thesis by blast
qed

text \<open>The operations of the source stay within the reachable stores.\<close>

lemma reachable_cleanup:
  "reachable d \<Longrightarrow> reachable (snd (cleanup_expired_registrations now em ph d))"
  unfolding cleanup_expired_registrations_def by (rule reachable.user_delete)

lemma reachable_create_user:
  assumes "reachable d"
  shows "reachable (snd (create_user fw now em pw extra_fields d))"
proof (cases "truthy em")
  case False
  then show ?thesis using assms by (simp add: create_user_def)
next
  case True
  define d1 where "d1 = snd (cleanup_expired_registrations now (Some (normalize_email (the em))) None d)"
  define user1 where "user1 = new_user fw (normalize_email (the em)) pw extra_fields"
  have r1: "reachable d1" unfolding d1_def using assms by (rule reachable_cleanup)
  have r2: "reachable (snd (save now user1 d1))" using r1 by (rule reachable.user_save)
  have "snd (create_user fw now em pw extra_fields d) = d1
        \<or> snd (create_user fw now em pw extra_fields d) = snd (save now user1 d1)"
    unfolding create_user_unfold[OF True] Let_def d1_def[symmetric] user1_def[symmetric]
    by (auto split: prod.splits sum.splits error.splits)
  then show ?thesis using r1 r2 by auto
qed

lemma reachable_create_superuser:
  assumes "reachable d"
  shows "reachable (snd (create_superuser fw now em pw extra_fields d))"
  using assms reachable_create_user
  by (simp add: create_superuser_def Let_def)

lemma reachable_update_rating:
  "reachable d \<Longrightarrow> reachable (snd (update_rating now self new_rating as_driver d))"
  unfolding update_rating_def Let_def by (rule reachable.user_save)

lemma OTP_create_tables: "\<exists>os. snd (OTP_create now user c ty d) = d\<lparr>otps := os\<rparr>"
proof (cases "snd (OTP_create now user c ty d) = d")
  case True
  then have "snd (OTP_create now user c ty d) = d\<lparr>otps := otps d\<rparr>" by simp
  then show ?thesis by (rule exI)
next
  case False
  then have "snd (OTP_create now user c ty d) = d\<lparr>otps := otps d @
      [\<lparr>otp_id = fresh_pk (map otp_id (otps d)), otp_user = user, code = c,
        otp_created_at = now, is_verified = False, attempts = 0, otp_type = ty\<rparr>]\<rparr>"
    by (simp add: OTP_create_def Let_def split: option.splits if_splits)
  then show ?thesis by (rule exI)
qed

lemma reachable_create_otp_for_user:
  assumes "reachable d"
  shows "reachable (snd (create_otp_for_user rng now user ty d))"
proof -
  define d1 where "d1 = d\<lparr>otps := map (\<lambda>t. if supersedes user ty t
                                             then t\<lparr>is_verified := True\<rparr> else t) (otps d)\<rparr>"
  define c where "c = concat (map (\<lambda>i. str_int (randint 0 9 (rng i))) [0..<6])"
  obtain os where "snd (OTP_create now user c ty d1) = d1\<lparr>otps := os\<rparr>"
    using OTP_create_tables by blast
  then have "snd (create_otp_for_user rng now user ty d)
             = d\<lparr>otps := os, requests := requests d, chats := chats d\<rparr>"
    by (simp add: create_otp_for_user_def Let_def d1_def c_def)
  then show ?thesis
    using reachable.other_tables[OF assms, where os = os and qs = "requests d" and cs = "chats d"]
    by simp
qed

lemma reachable_twin_db: "reachable twin_db"
proof -
  have "twin_db = snd (create_user django0 (minutes 1) (Some ''d@x.com'') (Some ''secret'')
                    (no_kwargs\<lparr>kw_phone_number := Some ''111''\<rparr>)
                  (snd (create_user django0 0 (Some ''a@x.com'') (Some ''secret'')
                    (no_kwargs\<lparr>kw_phone_number := Some ''111''\<rparr>) empty_db)))"
    by code_simp
  then show ?thesis
    by (elim ssubst) (intro reachable_create_user reachable.start)
qed

theorem reachable_unique_users_witness:
  "reachable twin_db
   \<and> length (filter (\<lambda>u. \<not> registration_pending u \<and> email u = ''a@x.com'') (users twin_db)) \<le> 1
   \<and> length (filter (\<lambda>u. \<not> registration_pending u \<and> phone_number u = ''111'') (users twin_db)) \<le> 1
   \<and> length (filter (\<lambda>u. email u = ''a@x.com'') (users twin_db)) \<le> 1
   \<and> length (filter (\<lambda>u. registration_pending u \<and> phone_number u = ''111'') (users twin_db)) = 2"
proof -
  have "length (filter (\<lambda>u. registration_pending u \<and> phone_number u = ''111'') (users twin_db)) = 2"
    by code_simp
  with reachable_unique_users[OF reachable_twin_db, of "''a@x.com''" "''111''"] reachable_twin_db
  show ?thesis by blast
qed

text \<open>
  The claim as it was stated fails: pending records cannot collide on an e-mail address.
  With a pending record for \<open>a@x.com\<close> in the store, one minute old, saving a second
  pending record with that address is refused by the store.
\<close>

theorem pending_email_collision_refused:
  "reachable (empty_db\<lparr>users := [pending0]\<rparr>)
   \<and> registration_pending pending0 \<and> email pending0 = ''a@x.com''
   \<and> minutes 1 - minutes 5 < created_at pending0
   \<and> registration_pending (model_init ''a@x.com'' (no_kwargs\<lparr>kw_phone_number := Some ''222''\<rparr>))
   \<and> save (minutes 1) (model_init ''a@x.com'' (no_kwargs\<lparr>kw_phone_number := Some ''222''\<rparr>))
        (empty_db\<lparr>users := [pending0]\<rparr>)
      = (Inl IntegrityError, empty_db\<lparr>users := [pending0]\<rparr>)"
proof -
  have "empty_db\<lparr>users := [pending0]\<rparr> = snd (save 0 pending0 empty_db)" by code_simp
  then have r: "reachable (empty_db\<lparr>users := [pending0]\<rparr>)"
    by (elim ssubst) (intro reachable.user_save reachable.start)
  have "registration_pending pending0 \<and> email pending0 = ''a@x.com''
   \<and> minutes 1 - minutes 5 < created_at pending0
   \<and> registration_pending (model_init ''a@x.com'' (no_kwargs\<lparr>kw_phone_number := Some ''222''\<rparr>))
   \<and> save (minutes 1) (model_init ''a@x.com'' (no_kwargs\<lparr>kw_phone_number := Some ''222''\<rparr>))
        (empty_db\<lparr>users := [pending0]\<rparr>)
      = (Inl IntegrityError, empty_db\<lparr>users := [pending0]\<rparr>)"
    by code_simp
  with r show ?thesis by blast
qed

lemma tables_Model_save [simp]:
  "rides (snd (Model_save now self d)) = rides d"
  "ratings (snd (Model_save now self d)) = ratings d"
  by (simp_all add: Model_save_def Let_def)

lemma ratings_ok_users:
  "ratings_ok (d\<lparr>users := us\<rparr>) = ratings_ok d"
  by (simp add: ratings_ok_def)

lemma ratings_ok_Model_save:
  "ratings_ok d \<Longrightarrow> ratings_ok (snd (Model_save now self d))"
  by (simp add: ratings_ok_def)

lemma ratings_ok_delete_users:
  assumes "ratings_ok d"
  shows "ratings_ok (snd (delete_users q d))"
proof -
  define ids where "ids = set (map uid (filter q (users d)))"
  define gone_ride where "gone_ride = (\<lambda>r::RideDetails. driver r \<in> ids)"
  define rids where "rids = set (map ride_id (filter gone_ride (rides d)))"
  define gone_rating where
    "gone_rating = (\<lambda>r::Rating. from_user r \<in> ids \<or> to_user r \<in> ids \<or> rating_ride r \<in> rids)"
  have r: "rides (snd (delete_users q d)) = filter (\<lambda>r. \<not> gone_ride r) (rides d)"
    and t: "ratings (snd (delete_users q d)) = filter (\<lambda>r. \<not> gone_rating r) (ratings d)"
    by (simp_all add: delete_users_def Let_def ids_def gone_ride_def rids_def gone_rating_def)
  have "rating_ride x \<in> set (map ride_id (filter (\<lambda>r. \<not> gone_ride r) (rides d)))"
    if "x \<in> set (ratings d)" "\<not> gone_rating x" for x
  proof -
    from that assms obtain y where y: "y \<in> set (rides d)" "ride_id y = rating_ride x"
      by (auto simp add: ratings_ok_def)
    have "\<not> gone_ride y"
    proof
      assume "gone_ride y"
      then have "ride_id y \<in> rids" using y(1) by (auto simp add: rids_def)
      then show False using that(2) y(2) by (simp add: gone_rating_def)
    qed
    then show ?thesis using y by force
  qed
  then show ?thesis
    using assms unfolding ratings_ok_def r t
    by (auto simp add: distinct_map_filter)
qed

lemma ratings_ok_save:
  "ratings_ok d \<Longrightarrow> ratings_ok (snd (save now self d))"
  by (simp add: save_def Let_def ratings_ok_Model_save ratings_ok_delete_users)

lemma ratings_ok_RideDetails_save:
  assumes "ratings_ok d"
  shows "ratings_ok (snd (RideDetails_save a ride d))"
proof -
  have "set (map ride_id (rides d)) \<subseteq> set (map ride_id (rides (snd (RideDetails_save a ride d))))"
    by (auto simp add: RideDetails_save_def Let_def)
  moreover have "ratings (snd (RideDetails_save a ride d)) = ratings d"
    by (simp add: RideDetails_save_def Let_def)
  ultimately show ?thesis using assms unfolding ratings_ok_def by auto
qed

lemma ratings_ok_delete_rides:
  assumes "ratings_ok d"
  shows "ratings_ok (snd (delete_rides q d))"
proof -
  define rids where "rids = set (map ride_id (filter q (rides d)))"
  have r: "rides (snd (delete_rides q d)) = filter (\<lambda>r. \<not> q r) (rides d)"
    and t: "ratings (snd (delete_rides q d))
             = filter (\<lambda>r. \<not> rating_ride r \<in> rids) (ratings d)"
    by (simp_all add: delete_rides_def Let_def rids_def)
  have "rating_ride x \<in> set (map ride_id (filter (\<lambda>r. \<not> q r) (rides d)))"
    if "x \<in> set (ratings d)" "rating_ride x \<notin> rids" for x
  proof -
    from that assms obtain y where y: "y \<in> set (rides d)" "ride_id y = rating_ride x"
      by (auto simp add: ratings_ok_def)
    have "\<not> q y" using that(2) y by (fastforce simp add: rids_def image_iff)
    then show ?thesis using y by force
  qed
  then show ?thesis
    using assms unfolding ratings_ok_def r t
    by (auto simp add: distinct_map_filter)
qed

lemma map_rating_id_replace:
  "map rating_id (map (\<lambda>v. if rating_id v = rating_id self then self else v) rs)
     = map rating_id rs"
  by (induction rs) auto

lemma ratings_ok_Rating_save:
  assumes "ratings_ok d"
  shows "ratings_ok (snd (Rating_save a self d))"
proof (cases "\<not> a \<and> rating_id self \<in> set (map rating_id (ratings d))")
  case True
  let ?r = "\<lambda>v. if rating_id v = rating_id self then self else v"
  show ?thesis
  proof (cases "\<not> rating_refs_exist d self
            \<or> rating_key self \<in> set (map rating_key
                 (filter (\<lambda>r. rating_id r \<noteq> rating_id self) (ratings d)))")
    case T: True
    then show ?thesis using True assms by (simp add: Rating_save_def)
  next
    case False
    have eq: "snd (Rating_save a self d) = d\<lparr>ratings := map ?r (ratings d)\<rparr>"
      using True False by (simp add: Rating_save_def)
    have k: "distinct (map rating_key (filter (\<lambda>_. True) (map ?r (ratings d))))"
      using assms False
      by (intro distinct_map_filter_replace[where g = rating_id])
         (fastforce simp add: ratings_ok_def image_iff)+
    have f: "\<forall>r\<in>set (map ?r (ratings d)). rating_ride r \<in> set (map ride_id (rides d))"
      using assms False by (auto simp add: ratings_ok_def rating_refs_exist_def)
    show ?thesis
      unfolding eq ratings_ok_def
      using assms k f by (simp add: ratings_ok_def map_rating_id_replace del: map_map)
  qed
next
  case False
  define row where "row = self\<lparr>rating_id := (if a then fresh_pk (map rating_id (ratings d))
                                         else rating_id self)\<rparr>"
  have fr: "rating_id row \<notin> set (map rating_id (ratings d))"
    using False fresh_pk_fresh[of "map rating_id (ratings d)"] by (auto simp add: row_def)
  have ms: "Rating_save a self d =
      (if \<not> rating_refs_exist d row \<or> rating_key row \<in> set (map rating_key (ratings d))
       then (Inl IntegrityError, d) else (Inr row, d\<lparr>ratings := ratings d @ [row]\<rparr>))"
    unfolding Rating_save_def Let_def row_def by (simp only: if_not_P[OF False])
  show ?thesis
    using assms fr unfolding ms
    by (auto simp add: ratings_ok_def rating_refs_exist_def)
qed

lemma ratings_ok_delete_ratings:
  "ratings_ok d \<Longrightarrow> ratings_ok (snd (delete_ratings q d))"
  by (auto simp add: ratings_ok_def delete_ratings_def distinct_map_filter)

lemma reachable_ratings_ok: "reachable d \<Longrightarrow> ratings_ok d"
proof (induction rule: reachable.induct)
  case start
  then show ?case by (simp add: ratings_ok_def empty_db_def)
next
  case (user_save d now self)
  show ?case using user_save.IH by (rule ratings_ok_save)
next
  case (user_delete d q)
  show ?case using user_delete.IH by (rule ratings_ok_delete_users)
next
  case (ride_save d adding_row ride)
  show ?case using ride_save.IH by (rule ratings_ok_RideDetails_save)
next
  case (ride_delete d qr)
  show ?case using ride_delete.IH by (rule ratings_ok_delete_rides)
next
  case (rating_save d adding_row rating)
  show ?case using rating_save.IH by (rule ratings_ok_Rating_save)
next
  case (rating_delete d qt)
  show ?case using rating_delete.IH by (rule ratings_ok_delete_ratings)
next
  case (other_tables d os qs cs)
  then show ?case by (simp add: ratings_ok_def)
qed

text \<open>
  Claim C9, as the code has it. In every reachable store at most one rating exists per
  (ride, from_user, to_user) triple and every rating belongs to a ride of the store. A
  score is between 1 and 5 whenever the rating passes \<open>full_clean\<close>; saving does not
  check it.
\<close>

theorem reachable_ratings:
  assumes "reachable d"
  shows "length (filter (\<lambda>r. rating_ride r = ride \<and> from_user r = a \<and> to_user r = b)
                   (ratings d)) \<le> 1
       \<and> (\<forall>r\<in>set (ratings d). rating_ride r \<in> set (map ride_id (rides d)))
       \<and> (Rating_full_clean adding_row d rating = [] \<longrightarrow> 1 \<le> score rating \<and> score rating \<le> 5)"
proof -
  have ok: "ratings_ok d" using assms by (rule reachable_ratings_ok)
  have "distinct (map rating_key (ratings d))" using ok by (simp add: ratings_ok_def)
  from at_most_one[OF this, of "(ride, a, b)"]
  have a: "length (filter (\<lambda>r. rating_ride r = ride \<and> from_user r = a \<and> to_user r = b)
                   (ratings d)) \<le> 1"
    by (simp add: rating_key_def)
  have b: "\<forall>r\<in>set (ratings d). rating_ride r \<in> set (map ride_id (rides d))"
    using ok by (simp add: ratings_ok_def)
  have c: "Rating_full_clean adding_row d rating = [] \<longrightarrow> 1 \<le> score rating \<and> score rating \<le> 5"
    by (auto simp add: Rating_full_clean_def Let_def split: if_splits)
  from a b c show ?thesis by blast
qed

lemma reachable_ride_db: "reachable ride_db"
proof -
  have "ride_db = snd (RideDetails_save True \<lparr>ride_id = 0, driver = 1\<rparr>
                    (snd (save 0 rider0 (snd (save 0 holder0 empty_db)))))"
    by code_simp
  then show ?thesis
    by (elim ssubst) (intro reachable.ride_save reachable.user_save reachable.start)
qed

text \<open>
  The claim as it was stated fails for the score: saving a rating with a score of 7
  succeeds, and the store it leaves is reachable.
\<close>

theorem rating_score_not_enforced:
  "reachable (ride_db\<lparr>ratings := [rating7]\<rparr>) \<and> score rating7 = 7
   \<and> Rating_save True (rating7\<lparr>rating_id := 0\<rparr>) ride_db
       = (Inr rating7, ride_db\<lparr>ratings := [rating7]\<rparr>)"
proof -
  have e: "Rating_save True (rating7\<lparr>rating_id := 0\<rparr>) ride_db
       = (Inr rating7, ride_db\<lparr>ratings := [rating7]\<rparr>)"
    by code_simp
  have "reachable (snd (Rating_save True (rating7\<lparr>rating_id := 0\<rparr>) ride_db))"
    using reachable_ride_db by (rule reachable.rating_save)
  then have "reachable (ride_db\<lparr>ratings := [rating7]\<rparr>)" by (simp add: e)
  moreover have "score rating7 = 7" by (simp add: rating7_def)
  ultimately show ?thesis using e by blast
qed

theorem reachable_ratings_witness:
  "reachable (ride_db\<lparr>ratings := [rating5]\<rparr>)
   \<and> length (filter (\<lambda>r. rating_ride r = 1 \<and> from_user r = 2 \<and> to_user r = 1)
                   (ratings (ride_db\<lparr>ratings := [rating5]\<rparr>))) = 1
   \<and> rating_ride rating5 \<in> set (map ride_id (rides (ride_db\<lparr>ratings := [rating5]\<rparr>)))
   \<and> Rating_full_clean True ride_db rating5 = []
   \<and> 1 \<le> score rating5 \<and> score rating5 \<le> 5
   \<and> Rating_full_clean True ride_db rating7 = [''score'']
   \<and> fst (Rating_save True rating5 (ride_db\<lparr>ratings := [rating5]\<rparr>)) = Inl IntegrityError"
proof -
  have e: "Rating_save True (rating5\<lparr>rating_id := 0\<rparr>) ride_db
       = (Inr rating5, ride_db\<lparr>ratings := [rating5]\<rparr>)"
    by code_simp
  have "reachable (snd (Rating_save True (rating5\<lparr>rating_id := 0\<rparr>) ride_db))"
    using reachable_ride_db by (rule reachable.rating_save)
  then have r: "reachable (ride_db\<lparr>ratings := [rating5]\<rparr>)" by (simp add: e)
  have c: "Rating_full_clean True ride_db rating5 = []" by code_simp
  have f: "length (filter (\<lambda>r. rating_ride r = 1 \<and> from_user r = 2 \<and> to_user r = 1)
                   (ratings (ride_db\<lparr>ratings := [rating5]\<rparr>))) = 1"
    by code_simp
  have g: "Rating_full_clean True ride_db rating7 = [''score'']" by code_simp
  have h: "fst (Rating_save True rating5 (ride_db\<lparr>ratings := [rating5]\<rparr>)) = Inl IntegrityError"
    by code_simp
  have m: "rating5 \<in> set (ratings (ride_db\<lparr>ratings := [rating5]\<rparr>))" by simp
  from reachable_ratings[OF r, of 1 2 1 True rating5] m
  have x: "rating_ride rating5 \<in> set (map ride_id (rides (ride_db\<lparr>ratings := [rating5]\<rparr>)))"
    by blast
  from reachable_ratings[OF reachable_ride_db, of 1 2 1 True rating5] c
  have y: "1 \<le> score rating5 \<and> score rating5 \<le> 5" by blast
  from r f x c y g h show ?thesis by blast
qed

end
